theory Spec2Isabelle
  imports Main "HOL-Library.Sublist"
begin

section \<open>Types of the debate (lib/types.ts)\<close>

datatype AIModel = GPT | Gemini | Claude

datatype DebateStage =
  TopicInput | ModelSelect | Position | CrossExam | CommonGround | Consensus | Result

datatype AIStatus = Idle | Streaming | Complete | Error | Abstained

text \<open>
  A \<^verbatim>\<open>Message\<close> of the source. JavaScript numbers are modelled as integers; the
  clock readings of \<^verbatim>\<open>Date.now()\<close> are natural numbers.
\<close>

record Message =
  msg_id :: string
  msg_model :: AIModel
  msg_content :: string
  msg_stage :: DebateStage
  msg_round :: int
  msg_timestamp :: nat
  msg_tokenCount :: "int option"

record AIState =
  ai_model :: AIModel
  ai_status :: AIStatus
  ai_apiKey :: string
  ai_tokenUsage :: int

text \<open>
  \<^verbatim>\<open>DebateConfig\<close> is the snapshot the engine functions receive; the store's
  \<^verbatim>\<open>DebateState\<close> has the same five fields and the agent table and flags on top.
\<close>

record DebateConfig =
  selectedModels :: "AIModel list"
  topic :: string
  messages :: "Message list"
  stage :: DebateStage
  roundNo :: int

record DebateState = DebateConfig +
  aiStates :: "AIModel \<Rightarrow> AIState"
  isPaused :: bool
  isComplete :: bool
  consensusReached :: bool

datatype Role = User | Assistant

record ContextMessage =
  cm_role :: Role
  cm_content :: string

record TurnResult =
  tr_model :: AIModel
  tr_prompt :: string
  tr_systemPrompt :: string
  tr_contextMessages :: "ContextMessage list"

text \<open>
  \<^verbatim>\<open>getSystemPrompt\<close> and \<^verbatim>\<open>getStagePrompt\<close> live in lib/prompts.ts; the engine
  only passes their results on, so they are parameters of the model.
\<close>

record Prompts =
  getSystemPrompt :: "AIModel \<Rightarrow> string"
  getStagePrompt :: "DebateStage \<Rightarrow> string \<Rightarrow> Message list \<Rightarrow> string option \<Rightarrow> int \<Rightarrow> string"

section \<open>Strings and arrays of JavaScript\<close>

text \<open>\<^verbatim>\<open>s.includes(t)\<close>: \<open>t\<close> occurs in \<open>s\<close> as a contiguous substring.\<close>

fun str_includes :: "string \<Rightarrow> string \<Rightarrow> bool" where
  "str_includes [] t = (t = [])"
| "str_includes (c # cs) t = (take (length t) (c # cs) = t \<or> str_includes cs t)"

text \<open>\<^verbatim>\<open>xs.slice(start)\<close>: a negative start counts from the end, clamped at 0.\<close>

definition slice_from :: "int \<Rightarrow> 'a list \<Rightarrow> 'a list" where
  "slice_from start xs =
     (let n = int (length xs);
          k = (if start < 0 then max (n + start) 0 else min start n)
      in drop (nat k) xs)"

text \<open>\<^verbatim>\<open>s.slice(0, n)\<close> on a string, for \<open>n \<ge> 0\<close>.\<close>

definition str_slice0 :: "nat \<Rightarrow> string \<Rightarrow> string" where
  "str_slice0 n s = take n s"

text \<open>\<^verbatim>\<open>xs[xs.length - 1]\<close>, which is \<^verbatim>\<open>undefined\<close> on an empty array.\<close>

definition last_elem :: "'a list \<Rightarrow> 'a option" where
  "last_elem xs = (if xs = [] then None else Some (last xs))"

text \<open>The model names as the strings of the union type, and their upper-case forms.\<close>

fun modelName :: "AIModel \<Rightarrow> string" where
  "modelName GPT = ''gpt''"
| "modelName Gemini = ''gemini''"
| "modelName Claude = ''claude''"

definition upper_char :: "char \<Rightarrow> char" where
  "upper_char c =
     (let n = (of_char c :: nat) in if 97 \<le> n \<and> n \<le> 122 then char_of (n - 32) else c)"

definition toUpperCase :: "string \<Rightarrow> string" where
  "toUpperCase s = map upper_char s"

text \<open>Decimal rendering of a clock reading inside a template string.\<close>

definition digit_char :: "nat \<Rightarrow> char" where
  "digit_char d = char_of (48 + d)"

fun show_nat :: "nat \<Rightarrow> string" where
  "show_nat n = (if n < 10 then [digit_char n] else show_nat (n div 10) @ [digit_char (n mod 10)])"

declare show_nat.simps [simp del]

section \<open>The debate engine (lib/debate-engine.ts)\<close>

fun STAGE_CONFIG_maxRounds :: "DebateStage \<Rightarrow> int" where
  "STAGE_CONFIG_maxRounds TopicInput = 0"
| "STAGE_CONFIG_maxRounds ModelSelect = 0"
| "STAGE_CONFIG_maxRounds Position = 1"
| "STAGE_CONFIG_maxRounds CrossExam = 4"
| "STAGE_CONFIG_maxRounds CommonGround = 2"
| "STAGE_CONFIG_maxRounds Consensus = 15"
| "STAGE_CONFIG_maxRounds Result = 0"

definition MIN_CONSENSUS_ROUND :: int where
  "MIN_CONSENSUS_ROUND = 3"

definition CONSENSUS_MARKER :: string where
  "CONSENSUS_MARKER = ''[CONSENSUS]''"

text \<open>
  \<^verbatim>\<open>order[order.indexOf(current) + 1] || 'result'\<close>: a stage outside the list has index
  \<open>-1\<close> and so is followed by the first entry.
\<close>

fun getNextStage :: "DebateStage \<Rightarrow> DebateStage" where
  "getNextStage Position = CrossExam"
| "getNextStage CrossExam = CommonGround"
| "getNextStage CommonGround = Consensus"
| "getNextStage Consensus = Result"
| "getNextStage Result = Result"
| "getNextStage TopicInput = Position"
| "getNextStage ModelSelect = Position"

definition stageMessages :: "'a DebateConfig_scheme \<Rightarrow> Message list" where
  "stageMessages config =
     filter (\<lambda>m. msg_stage m = stage config \<and> msg_round m = roundNo config) (messages config)"

definition findCurrentConsensus :: "Message list \<Rightarrow> string option" where
  "findCurrentConsensus msgs =
     map_option msg_content
       (last_elem (filter (\<lambda>m. msg_stage m = Consensus
                          \<and> \<not> str_includes (str_slice0 500 (msg_content m)) CONSENSUS_MARKER) msgs))"

definition buildContextMessages :: "Message list \<Rightarrow> AIModel \<Rightarrow> ContextMessage list" where
  "buildContextMessages msgs currentModel =
     map (\<lambda>m. \<lparr> cm_role = (if msg_model m = currentModel then Assistant else User),
                cm_content = ''['' @ toUpperCase (modelName (msg_model m)) @ '']: '' @ msg_content m \<rparr>)
         (slice_from (- 5) msgs)"

definition getNextTurn :: "Prompts \<Rightarrow> 'a DebateConfig_scheme \<Rightarrow> TurnResult option" where
  "getNextTurn P config =
     (if stage config = Result \<or> stage config = TopicInput \<or> stage config = ModelSelect then None
      else
        let modelsSpokenThisRound = map msg_model (stageMessages config) in
        case find (\<lambda>m. m \<notin> set modelsSpokenThisRound) (selectedModels config) of
          None \<Rightarrow> None
        | Some nextModel \<Rightarrow>
            let recentMessages = slice_from (- 5) (messages config);
                currentConsensus = findCurrentConsensus (messages config)
            in Some \<lparr> tr_model = nextModel,
                      tr_prompt = getStagePrompt P (stage config) (topic config) recentMessages
                                    currentConsensus (roundNo config),
                      tr_systemPrompt = getSystemPrompt P nextModel,
                      tr_contextMessages = buildContextMessages (messages config) nextModel \<rparr>)"

definition shouldAdvanceRound :: "'a DebateConfig_scheme \<Rightarrow> bool" where
  "shouldAdvanceRound config \<longleftrightarrow> length (stageMessages config) \<ge> length (selectedModels config)"

text \<open>The result object \<^verbatim>\<open>{ advance, nextStage? }\<close> as a pair.\<close>

definition shouldAdvanceStage :: "'a DebateConfig_scheme \<Rightarrow> bool \<times> DebateStage option" where
  "shouldAdvanceStage config =
     (if roundNo config \<ge> STAGE_CONFIG_maxRounds (stage config)
      then (True, Some (getNextStage (stage config)))
      else (False, None))"

definition lastConsensusMessage :: "Message list \<Rightarrow> AIModel \<Rightarrow> Message option" where
  "lastConsensusMessage msgs a =
     (let consensusMessages = filter (\<lambda>m. msg_stage m = Consensus) msgs;
          modelMessages = filter (\<lambda>m. msg_model m = a) consensusMessages
      in last_elem modelMessages)"

definition checkConsensus :: "'a DebateConfig_scheme \<Rightarrow> bool" where
  "checkConsensus config =
     (if stage config \<noteq> Consensus then False
      else if roundNo config < MIN_CONSENSUS_ROUND then False
      else
        let lastMessages = map (lastConsensusMessage (messages config)) (selectedModels config)
        in list_all (\<lambda>m. case m of None \<Rightarrow> False
                              | Some m' \<Rightarrow> str_includes (msg_content m') CONSENSUS_MARKER)
                    lastMessages)"

section \<open>The session store (store/debate-store.ts)\<close>

definition createInitialAIState :: "AIModel \<Rightarrow> AIState" where
  "createInitialAIState m =
     \<lparr> ai_model = m, ai_status = Idle, ai_apiKey = [], ai_tokenUsage = 0 \<rparr>"

definition initialState :: DebateState where
  "initialState =
     \<lparr> selectedModels = [], topic = [], messages = [], stage = TopicInput, roundNo = 0,
       aiStates = createInitialAIState, isPaused = False, isComplete = False,
       consensusReached = False \<rparr>"

text \<open>The argument of \<^verbatim>\<open>addMessage\<close>: a message without id and timestamp.\<close>

record MessageInput =
  mi_model :: AIModel
  mi_content :: string
  mi_stage :: DebateStage
  mi_round :: int
  mi_tokenCount :: "int option"

text \<open>\<^verbatim>\<open>xs.findIndex(p)\<close>, with \<open>None\<close> for \<open>-1\<close>.\<close>

fun findIndex :: "('a \<Rightarrow> bool) \<Rightarrow> 'a list \<Rightarrow> nat option" where
  "findIndex p [] = None"
| "findIndex p (x # xs) = (if p x then Some 0 else map_option Suc (findIndex p xs))"

definition setTopic :: "string \<Rightarrow> DebateState \<Rightarrow> DebateState" where
  "setTopic t s = s\<lparr>topic := t\<rparr>"

definition setStage :: "DebateStage \<Rightarrow> DebateState \<Rightarrow> DebateState" where
  "setStage st s = s\<lparr>stage := st\<rparr>"

definition setRound :: "int \<Rightarrow> DebateState \<Rightarrow> DebateState" where
  "setRound r s = s\<lparr>roundNo := r\<rparr>"

text \<open>
  \<^verbatim>\<open>addMessage\<close> reads the clock twice, once for the id and once for the timestamp;
  both readings are inputs.
\<close>

definition addMessage :: "MessageInput \<Rightarrow> nat \<Rightarrow> nat \<Rightarrow> DebateState \<Rightarrow> DebateState" where
  "addMessage message now_id now_ts s =
     s\<lparr>messages := messages s @
          [\<lparr> msg_id = modelName (mi_model message) @ ''-'' @ show_nat now_id,
             msg_model = mi_model message,
             msg_content = mi_content message,
             msg_stage = mi_stage message,
             msg_round = mi_round message,
             msg_timestamp = now_ts,
             msg_tokenCount = mi_tokenCount message \<rparr>]\<rparr>"

definition updateStreamingMessage ::
  "AIModel \<Rightarrow> string \<Rightarrow> nat \<Rightarrow> nat \<Rightarrow> DebateState \<Rightarrow> DebateState" where
  "updateStreamingMessage model content now_id now_ts s =
     (case findIndex (\<lambda>m. msg_model m = model \<and> msg_stage m = stage s \<and> msg_round m = roundNo s)
             (messages s) of
        None \<Rightarrow>
          s\<lparr>messages := messages s @
               [\<lparr> msg_id = modelName model @ ''-'' @ show_nat now_id,
                  msg_model = model,
                  msg_content = content,
                  msg_stage = stage s,
                  msg_round = roundNo s,
                  msg_timestamp = now_ts,
                  msg_tokenCount = None \<rparr>]\<rparr>
      | Some existingIndex \<Rightarrow>
          s\<lparr>messages := (messages s)[existingIndex :=
               (messages s ! existingIndex)\<lparr>msg_content := content\<rparr>]\<rparr>)"

definition toggleModel :: "AIModel \<Rightarrow> DebateState \<Rightarrow> DebateState" where
  "toggleModel model s =
     s\<lparr>selectedModels :=
         (if model \<in> set (selectedModels s)
          then filter (\<lambda>m. m \<noteq> model) (selectedModels s)
          else selectedModels s @ [model])\<rparr>"

definition setApiKey :: "AIModel \<Rightarrow> string \<Rightarrow> DebateState \<Rightarrow> DebateState" where
  "setApiKey model key s =
     s\<lparr>aiStates := (aiStates s)(model := (aiStates s model)\<lparr>ai_apiKey := key\<rparr>)\<rparr>"

definition setAIStatus :: "AIModel \<Rightarrow> AIStatus \<Rightarrow> DebateState \<Rightarrow> DebateState" where
  "setAIStatus model status s =
     s\<lparr>aiStates := (aiStates s)(model := (aiStates s model)\<lparr>ai_status := status\<rparr>)\<rparr>"

definition updateTokenUsage :: "AIModel \<Rightarrow> int \<Rightarrow> DebateState \<Rightarrow> DebateState" where
  "updateTokenUsage model tokens s =
     s\<lparr>aiStates := (aiStates s)(model :=
         (aiStates s model)\<lparr>ai_tokenUsage := ai_tokenUsage (aiStates s model) + tokens\<rparr>)\<rparr>"

definition togglePause :: "DebateState \<Rightarrow> DebateState" where
  "togglePause s = s\<lparr>isPaused := \<not> isPaused s\<rparr>"

definition setComplete :: "bool \<Rightarrow> DebateState \<Rightarrow> DebateState" where
  "setComplete reached s = s\<lparr>isComplete := True, consensusReached := reached, stage := Result\<rparr>"

definition reset :: "DebateState \<Rightarrow> DebateState" where
  "reset s = initialState"

text \<open>Every action of the store, and its effect on the state.\<close>

datatype StoreAction =
    SetTopic string
  | SetStage DebateStage
  | SetRound int
  | AddMessage MessageInput nat nat
  | UpdateStreamingMessage AIModel string nat nat
  | ToggleModel AIModel
  | SetApiKey AIModel string
  | SetAIStatus AIModel AIStatus
  | UpdateTokenUsage AIModel int
  | TogglePause
  | SetComplete bool
  | Reset

fun dispatch :: "StoreAction \<Rightarrow> DebateState \<Rightarrow> DebateState" where
  "dispatch (SetTopic t) s = setTopic t s"
| "dispatch (SetStage st) s = setStage st s"
| "dispatch (SetRound r) s = setRound r s"
| "dispatch (AddMessage message now_id now_ts) s = addMessage message now_id now_ts s"
| "dispatch (UpdateStreamingMessage model content now_id now_ts) s =
     updateStreamingMessage model content now_id now_ts s"
| "dispatch (ToggleModel model) s = toggleModel model s"
| "dispatch (SetApiKey model key) s = setApiKey model key s"
| "dispatch (SetAIStatus model status) s = setAIStatus model status s"
| "dispatch (UpdateTokenUsage model tokens) s = updateTokenUsage model tokens s"
| "dispatch TogglePause s = togglePause s"
| "dispatch (SetComplete reached) s = setComplete reached s"
| "dispatch Reset s = reset s"

section \<open>The debate view and its turn (components/DebateView.tsx)\<close>

text \<open>
  The two texts the error dialog can show: the key of the model is not valid, or the call
  to the model failed. Both are fixed sentences that start with the model's name.
\<close>

datatype ApiErrorText = KeyInvalidText | CallFailedText

text \<open>The store together with the component's own state (its \<^verbatim>\<open>useState\<close> cells).\<close>

record DebateView =
  store :: DebateState
  streamingContent :: string
  currentStreamingModel :: "AIModel option"
  isRunning :: bool
  retryCount :: "AIModel \<Rightarrow> int"
  apiError :: "(AIModel \<times> ApiErrorText) option"

record ChatRequest =
  rq_model :: AIModel
  rq_apiKey :: string
  rq_systemPrompt :: string
  rq_messages :: "ContextMessage list"

text \<open>
  What the request to \<^verbatim>\<open>/api/chat\<close> can come back with. The body is a stream of lines;
  the reader loop tells four kinds of line apart: a line that does not start with
  \<^verbatim>\<open>data: \<close>, the \<^verbatim>\<open>[DONE]\<close> marker, a payload on which \<^verbatim>\<open>JSON.parse\<close> or
  the access to its fields throws (with the message of the exception), and a parsed payload
  with its \<^verbatim>\<open>content\<close> and \<^verbatim>\<open>error\<close> fields (the empty string for an absent or falsy
  field).
\<close>

datatype SseLine = OtherLine | DoneMarker | ParseFailure string | Payload string string

datatype FetchResponse =
    FetchRejected string
  | ResponseNotOk
  | NoReader
  | Stream "SseLine list" "string option"

text \<open>
  The inner \<^verbatim>\<open>catch\<close>: an exception with a non-empty message that does not contain
  \<^verbatim>\<open>JSON\<close> is thrown again, any other is dropped.
\<close>

definition rethrown :: "string \<Rightarrow> bool" where
  "rethrown msg \<longleftrightarrow> msg \<noteq> [] \<and> \<not> str_includes msg ''JSON''"

text \<open>The reader loop: \<open>Inl\<close> the message of the exception that leaves it, \<open>Inr\<close> the text.\<close>

fun readLines :: "string \<Rightarrow> SseLine list \<Rightarrow> string + string" where
  "readLines fullContent [] = Inr fullContent"
| "readLines fullContent (OtherLine # ls) = readLines fullContent ls"
| "readLines fullContent (DoneMarker # ls) = readLines fullContent ls"
| "readLines fullContent (ParseFailure msg # ls) =
     (if rethrown msg then Inl msg else readLines fullContent ls)"
| "readLines fullContent (Payload c e # ls) =
     (let fullContent' = (if c \<noteq> [] then fullContent @ c else fullContent) in
      if e \<noteq> [] \<and> rethrown e then Inl e else readLines fullContent' ls)"

text \<open>
  The \<^verbatim>\<open>try\<close> block up to the end of the reader loop. The stream ends either with
  \<^verbatim>\<open>done\<close> or with a rejected \<^verbatim>\<open>read()\<close>.
\<close>

fun attempt :: "FetchResponse \<Rightarrow> string + string" where
  "attempt (FetchRejected msg) = Inl msg"
| "attempt ResponseNotOk = Inl ''API request failed''"
| "attempt NoReader = Inl ''No reader''"
| "attempt (Stream ls ending) =
     (case readLines [] ls of
        Inl msg \<Rightarrow> Inl msg
      | Inr fullContent \<Rightarrow> (case ending of None \<Rightarrow> Inr fullContent | Some msg \<Rightarrow> Inl msg))"

definition isCredentialError :: "string \<Rightarrow> bool" where
  "isCredentialError errorMessage \<longleftrightarrow>
     str_includes errorMessage ''401'' \<or> str_includes errorMessage ''API key''
     \<or> str_includes errorMessage ''Incorrect''"

definition RETRY_CEILING :: int where
  "RETRY_CEILING = 3"

text \<open>\<^verbatim>\<open>Math.ceil(fullContent.length / 4)\<close>.\<close>

definition tokenEstimate :: "string \<Rightarrow> int" where
  "tokenEstimate fullContent = (int (length fullContent) + 3) div 4"

definition chatRequest :: "DebateView \<Rightarrow> TurnResult \<Rightarrow> ChatRequest" where
  "chatRequest v turn =
     \<lparr> rq_model = tr_model turn,
       rq_apiKey = ai_apiKey (aiStates (store v) (tr_model turn)),
       rq_systemPrompt = tr_systemPrompt turn,
       rq_messages = tr_contextMessages turn @ [\<lparr> cm_role = User, cm_content = tr_prompt turn \<rparr>] \<rparr>"

text \<open>The \<^verbatim>\<open>finally\<close> block.\<close>

definition finish :: "DebateView \<Rightarrow> DebateView" where
  "finish v = v\<lparr>currentStreamingModel := None, streamingContent := [], isRunning := False\<rparr>"

text \<open>
  The second half of \<^verbatim>\<open>runTurn\<close>, from the destructuring of the turn on. The stage, the
  round and the retry counters it uses are those the callback closed over, that is those
  of the view the tick started from.
\<close>

definition executeTurn ::
  "TurnResult \<Rightarrow> FetchResponse \<Rightarrow> nat \<Rightarrow> nat \<Rightarrow> DebateView \<Rightarrow> DebateView" where
  "executeTurn turn response now_id now_ts v =
     (let model = tr_model turn;
          v1 = v\<lparr>isRunning := True, currentStreamingModel := Some model,
                 store := setAIStatus model Streaming (store v), streamingContent := []\<rparr>
      in case attempt response of
           Inr fullContent \<Rightarrow>
             finish (v1\<lparr>store :=
                          updateTokenUsage model (tokenEstimate fullContent)
                            (setAIStatus model Complete
                              (addMessage \<lparr> mi_model = model, mi_content = fullContent,
                                            mi_stage = stage (store v), mi_round = roundNo (store v),
                                            mi_tokenCount = None \<rparr>
                                 now_id now_ts (store v1))),
                        retryCount := (retryCount v1)(model := 0)\<rparr>)
         | Inl errorMessage \<Rightarrow>
             if isCredentialError errorMessage then
               finish (v1\<lparr>apiError := Some (model, KeyInvalidText),
                          store := setAIStatus model Abstained (store v1)\<rparr>)
             else
               let currentRetry = retryCount v model in
               if currentRetry < RETRY_CEILING then
                 finish (v1\<lparr>retryCount := (retryCount v1)(model := currentRetry + 1),
                            store := setAIStatus model Idle (store v1)\<rparr>)
               else
                 finish (v1\<lparr>apiError := Some (model, CallFailedText),
                            store := setAIStatus model Abstained (store v1)\<rparr>))"

text \<open>
  What a tick did: which \<^verbatim>\<open>return\<close> of \<^verbatim>\<open>runTurn\<close> ended it, and the request sent
  to the model when the tick got as far as a turn.
\<close>

datatype TickAction =
    NoAction
  | ConsensusReached
  | DebateOver
  | StageAdvanced DebateStage
  | RoundAdvanced int
  | TurnProduced ChatRequest

text \<open>
  \<^verbatim>\<open>runTurn\<close>. The response of the model to the request is an input (\<open>respond\<close>), as are
  the two clock readings of \<^verbatim>\<open>addMessage\<close>.
\<close>

definition runTurn ::
  "Prompts \<Rightarrow> (ChatRequest \<Rightarrow> FetchResponse) \<Rightarrow> nat \<Rightarrow> nat \<Rightarrow> DebateView
     \<Rightarrow> TickAction \<times> DebateView" where
  "runTurn P respond now_id now_ts v =
     (if isPaused (store v) \<or> isComplete (store v) \<or> isRunning v then (NoAction, v)
      else
        let config = DebateConfig.truncate (store v) in
        if checkConsensus config then (ConsensusReached, v\<lparr>store := setComplete True (store v)\<rparr>)
        else
          let stageCheck = shouldAdvanceStage config in
          if fst stageCheck \<and> snd stageCheck \<noteq> None then
            (if snd stageCheck = Some Result
             then (DebateOver, v\<lparr>store := setComplete False (store v)\<rparr>)
             else (StageAdvanced (the (snd stageCheck)),
                   v\<lparr>store := setRound 1 (setStage (the (snd stageCheck)) (store v))\<rparr>))
          else if shouldAdvanceRound config
          then (RoundAdvanced (roundNo config + 1),
                v\<lparr>store := setRound (roundNo config + 1) (store v)\<rparr>)
          else
            (case getNextTurn P config of
               None \<Rightarrow> (NoAction, v)
             | Some turn \<Rightarrow>
                 (TurnProduced (chatRequest v turn),
                  executeTurn turn (respond (chatRequest v turn)) now_id now_ts v)))"

section \<open>Names used in the statements, and example sessions\<close>

text \<open>The upper-case name of a model, written out.\<close>

definition upperName :: "AIModel \<Rightarrow> string" where
  "upperName a = (case a of GPT \<Rightarrow> ''GPT'' | Gemini \<Rightarrow> ''GEMINI'' | Claude \<Rightarrow> ''CLAUDE'')"

text \<open>A message with a fixed id and timestamp, for the examples.\<close>

definition mk_msg :: "AIModel \<Rightarrow> DebateStage \<Rightarrow> int \<Rightarrow> string \<Rightarrow> Message" where
  "mk_msg a st r txt =
     \<lparr> msg_id = modelName a @ ''-0'', msg_model = a, msg_content = txt, msg_stage = st,
       msg_round = r, msg_timestamp = 0, msg_tokenCount = None \<rparr>"

definition c9_log :: "Message list" where
  "c9_log =
     [mk_msg GPT Position 0 ''a'', mk_msg Gemini Position 0 ''b'', mk_msg Claude Position 0 ''c'',
      mk_msg GPT CrossExam 1 ''d'', mk_msg Gemini CrossExam 1 ''e'', mk_msg Claude CrossExam 1 ''f'']"

text \<open>
  The consensus rule in the words of the specification: only the agents that have not
  abstained are asked for an agreeing latest consensus-stage utterance.
\<close>

definition claimed_consensus :: "DebateState \<Rightarrow> bool" where
  "claimed_consensus s \<longleftrightarrow>
     stage s = Consensus \<and> 3 \<le> roundNo s \<and>
     list_all (\<lambda>a. case lastConsensusMessage (messages s) a of
                       None \<Rightarrow> False
                     | Some m \<Rightarrow> str_includes (msg_content m) ''[CONSENSUS]'')
              (filter (\<lambda>a. ai_status (aiStates s a) \<noteq> Abstained) (selectedModels s))"

text \<open>
  A session in round 3 of the consensus stage: GPT's latest consensus utterance agrees,
  Gemini's does not, and Gemini has abstained in round 3.
\<close>

definition c1_state :: DebateState where
  "c1_state =
     \<lparr> selectedModels = [GPT, Gemini], topic = ''t'',
       messages = [mk_msg GPT Consensus 1 ''p1'', mk_msg Gemini Consensus 1 ''q1'',
                   mk_msg GPT Consensus 2 ''p2'', mk_msg Gemini Consensus 2 ''q2'',
                   mk_msg GPT Consensus 3 ''[CONSENSUS] p2''],
       stage = Consensus, roundNo = 3,
       aiStates = (createInitialAIState(GPT := \<lparr> ai_model = GPT, ai_status = Complete, ai_apiKey = ''k1'', ai_tokenUsage = 9 \<rparr>,
                                        Gemini := \<lparr> ai_model = Gemini, ai_status = Abstained, ai_apiKey = ''k2'', ai_tokenUsage = 2 \<rparr>)),
       isPaused = False, isComplete = False, consensusReached = False \<rparr>"

text \<open>A snapshot in which the latest consensus utterance of both agents agrees.\<close>

definition c1_agreed :: DebateConfig where
  "c1_agreed =
     \<lparr> selectedModels = [GPT, Gemini], topic = ''t'',
       messages = [mk_msg GPT Consensus 2 ''p2'', mk_msg Gemini Consensus 2 ''fine: [CONSENSUS] p2'',
                   mk_msg GPT Consensus 3 ''[CONSENSUS] p2''],
       stage = Consensus, roundNo = 3 \<rparr>"

text \<open>
  A session in round 1 of the cross-examination with GPT and Gemini: GPT has spoken in
  this round, Gemini has not. Gemini has used up its retries.
\<close>

definition ex_store :: DebateState where
  "ex_store =
     \<lparr> selectedModels = [GPT, Gemini], topic = ''t'',
       messages = [mk_msg GPT Position 0 ''p0'', mk_msg Gemini Position 0 ''q0'',
                   mk_msg GPT CrossExam 1 ''p1''],
       stage = CrossExam, roundNo = 1,
       aiStates = (createInitialAIState(GPT := \<lparr> ai_model = GPT, ai_status = Complete, ai_apiKey = ''k1'', ai_tokenUsage = 2 \<rparr>,
                                        Gemini := \<lparr> ai_model = Gemini, ai_status = Idle, ai_apiKey = ''k2'', ai_tokenUsage = 1 \<rparr>)),
       isPaused = False, isComplete = False, consensusReached = False \<rparr>"

text \<open>The view on that session, idle between two ticks.\<close>

definition ex_view :: DebateView where
  "ex_view =
     \<lparr> store = ex_store, streamingContent = [], currentStreamingModel = None,
       isRunning = False, retryCount = ((\<lambda>_. 0)(Gemini := 3)), apiError = None \<rparr>"

text \<open>A turn directive for an agent.\<close>

definition ex_turn :: "AIModel \<Rightarrow> TurnResult" where
  "ex_turn a = \<lparr> tr_model = a, tr_prompt = ''p'', tr_systemPrompt = ''s'', tr_contextMessages = [] \<rparr>"

text \<open>Prompts and a model endpoint for the examples: every request is refused.\<close>

definition ex_prompts :: Prompts where
  "ex_prompts = \<lparr> getSystemPrompt = (\<lambda>a. ''system''),
                   getStagePrompt = (\<lambda>st tp recent cur r. ''task'') \<rparr>"

definition ex_refuse :: "ChatRequest \<Rightarrow> FetchResponse" where
  "ex_refuse rq = ResponseNotOk"

text \<open>The agent a tick produced a turn for, if it produced one.\<close>

definition producedFor :: "TickAction \<Rightarrow> AIModel option" where
  "producedFor act = (case act of TurnProduced rq \<Rightarrow> Some (rq_model rq) | _ \<Rightarrow> None)"

text \<open>
  Three more views on the example session: Gemini has spoken in round 1 as well; the
  round counter has reached the maximum of the cross-examination; and both agents agree in
  round 3 of the consensus stage.
\<close>

definition ex_round_view :: DebateView where
  "ex_round_view =
     ex_view\<lparr>store := ex_store\<lparr>messages := messages ex_store @ [mk_msg Gemini CrossExam 1 ''q1'']\<rparr>\<rparr>"

definition ex_stage_view :: DebateView where
  "ex_stage_view = ex_view\<lparr>store := ex_store\<lparr>roundNo := 4\<rparr>\<rparr>"

definition ex_agreed_view :: DebateView where
  "ex_agreed_view =
     ex_view\<lparr>store := ex_store\<lparr>stage := Consensus, roundNo := 3,
        messages := [mk_msg GPT Consensus 3 ''[CONSENSUS] x'',
                     mk_msg Gemini Consensus 3 ''[CONSENSUS] x'']\<rparr>\<rparr>"

text \<open>The two store actions that do more to the log than append to it.\<close>

fun rewritesLog :: "StoreAction \<Rightarrow> bool" where
  "rewritesLog (UpdateStreamingMessage model content now_id now_ts) = True"
| "rewritesLog Reset = True"
| "rewritesLog action = False"

text \<open>
  The round-advance rule in the words of the specification: the utterances for the
  current stage and round are as many as the agents that have not abstained.
\<close>

definition claimed_roundComplete :: "DebateState \<Rightarrow> bool" where
  "claimed_roundComplete s \<longleftrightarrow>
     length (stageMessages s) =
       length (filter (\<lambda>a. ai_status (aiStates s a) \<noteq> Abstained) (selectedModels s))"

text \<open>The example session after Gemini has abstained.\<close>

definition ex_abstained_store :: DebateState where
  "ex_abstained_store = setAIStatus Gemini Abstained ex_store"

text \<open>
  No agent has two utterances for one stage and round, every utterance is by a selected
  agent, and no agent is selected twice. A debate starts in such a state (the log is
  empty) and every tick keeps it.
\<close>

definition oneUtterancePerRound :: "'a DebateConfig_scheme \<Rightarrow> bool" where
  "oneUtterancePerRound s \<longleftrightarrow>
     distinct (selectedModels s) \<and>
     distinct (map (\<lambda>m. (msg_stage m, msg_round m, msg_model m)) (messages s)) \<and>
     list_all (\<lambda>m. msg_model m \<in> set (selectedModels s)) (messages s)"

text \<open>
  The view on the example session before any failure: all retry counters are zero, and
  a second one in which Gemini has failed once.
\<close>

definition ex_fresh_view :: DebateView where
  "ex_fresh_view = ex_view\<lparr>retryCount := (\<lambda>_. 0)\<rparr>"

definition ex_retried_view :: DebateView where
  "ex_retried_view = ex_view\<lparr>retryCount := ((\<lambda>_. 0)(Gemini := 1))\<rparr>"

text \<open>
  Two endpoints as the chat route answers when the provider throws: the body is the single
  event \<^verbatim>\<open>data: {"error": message}\<close> followed by two empty lines. The first reports a
  rejected key, the second a rejected request whose message mentions JSON.
\<close>

definition ex_bad_key :: "ChatRequest \<Rightarrow> FetchResponse" where
  "ex_bad_key rq = Stream [Payload [] ''401 Incorrect API key provided'', OtherLine, OtherLine] None"

definition ex_json_error :: "ChatRequest \<Rightarrow> FetchResponse" where
  "ex_json_error rq = Stream [Payload [] ''Invalid JSON payload received'', OtherLine, OtherLine] None"

text \<open>The request the example session sends for Gemini.\<close>

definition ex_request :: ChatRequest where
  "ex_request =
     \<lparr> rq_model = Gemini, rq_apiKey = ''k2'', rq_systemPrompt = ''system'',
       rq_messages = buildContextMessages (messages ex_store) Gemini
                       @ [\<lparr> cm_role = User, cm_content = ''task'' \<rparr>] \<rparr>"

section \<open>Strings, slices and the last element of a filter\<close>


lemma slice_from_neg5: "slice_from (- 5) xs = drop (length xs - 5) xs"
  by (simp add: slice_from_def Let_def max_def nat_diff_distrib') 

lemma length_slice_from_neg5: "length (slice_from (- 5) xs) = min 5 (length xs)"
  by (simp add: slice_from_neg5)

lemma upper_GPT: "toUpperCase (modelName GPT) = ''GPT''"
  by code_simp

lemma upper_Gemini: "toUpperCase (modelName Gemini) = ''GEMINI''"
  by code_simp

lemma upper_Claude: "toUpperCase (modelName Claude) = ''CLAUDE''"
  by code_simp

lemma str_includes_iff: "str_includes s t \<longleftrightarrow> (\<exists>a b. s = a @ t @ b)"
proof (induction s)
  case Nil
  then show ?case by auto
next
  case (Cons c cs)
  show ?case
  proof
    assume "str_includes (c # cs) t"
    then consider "take (length t) (c # cs) = t" | "str_includes cs t" by auto
    then show "\<exists>a b. c # cs = a @ t @ b"
    proof cases
      case 1
      then have "c # cs = [] @ t @ drop (length t) (c # cs)"
        by (metis append_Nil append_take_drop_id)
      then show ?thesis by blast
    next
      case 2
      then obtain a b where "cs = a @ t @ b" using Cons.IH by blast
      then have "c # cs = (c # a) @ t @ b" by simp
      then show ?thesis by blast
    qed
  next
    assume "\<exists>a b. c # cs = a @ t @ b"
    then obtain a b where ab: "c # cs = a @ t @ b" by blast
    show "str_includes (c # cs) t"
    proof (cases a)
      case Nil
      then have "take (length t) (c # cs) = t" using ab by simp
      then show ?thesis by simp
    next
      case (Cons x a')
      then have "cs = a' @ t @ b" using ab by simp
      then have "str_includes cs t" using Cons.IH by blast
      then show ?thesis by simp
    qed
  qed
qed

lemma last_elem_filter_Some:
  "last_elem (filter p xs) = Some m \<longleftrightarrow>
     (\<exists>ys zs. xs = ys @ m # zs \<and> p m \<and> (\<forall>z \<in> set zs. \<not> p z))"
proof (induction xs rule: rev_induct)
  case Nil
  then show ?case by (simp add: last_elem_def)
next
  case (snoc x xs)
  show ?case
  proof (cases "p x")
    case True
    have "(\<exists>ys zs. xs @ [x] = ys @ m # zs \<and> p m \<and> (\<forall>z \<in> set zs. \<not> p z)) \<longleftrightarrow> x = m"
    proof
      assume "\<exists>ys zs. xs @ [x] = ys @ m # zs \<and> p m \<and> (\<forall>z \<in> set zs. \<not> p z)"
      then obtain ys zs where d: "xs @ [x] = ys @ m # zs" "p m" "\<forall>z \<in> set zs. \<not> p z" by blast
      show "x = m"
      proof (cases zs rule: rev_cases)
        case Nil
        then show ?thesis using d(1) by simp
      next
        case (snoc zs' z)
        then have "x = z" using d(1) by (metis append_Cons append_assoc snoc_eq_iff_butlast)
        then show ?thesis using d(3) snoc True by simp
      qed
    next
      assume "x = m"
      then have "xs @ [x] = xs @ m # []" "p m" using True by simp_all
      then show "\<exists>ys zs. xs @ [x] = ys @ m # zs \<and> p m \<and> (\<forall>z \<in> set zs. \<not> p z)" by fastforce
    qed
    then show ?thesis using True by (simp add: last_elem_def)
  next
    case False
    have "(\<exists>ys zs. xs @ [x] = ys @ m # zs \<and> p m \<and> (\<forall>z \<in> set zs. \<not> p z))
          \<longleftrightarrow> (\<exists>ys zs. xs = ys @ m # zs \<and> p m \<and> (\<forall>z \<in> set zs. \<not> p z))"
    proof
      assume "\<exists>ys zs. xs @ [x] = ys @ m # zs \<and> p m \<and> (\<forall>z \<in> set zs. \<not> p z)"
      then obtain ys zs where d: "xs @ [x] = ys @ m # zs" "p m" "\<forall>z \<in> set zs. \<not> p z" by blast
      show "\<exists>ys zs. xs = ys @ m # zs \<and> p m \<and> (\<forall>z \<in> set zs. \<not> p z)"
      proof (cases zs rule: rev_cases)
        case Nil
        then have "x = m" using d(1) by simp
        then show ?thesis using False d(2) by simp
      next
        case (snoc zs' z)
        then have "xs = ys @ m # zs'" using d(1) by (metis append_Cons append_assoc butlast_snoc)
        then show ?thesis using d(2,3) snoc by auto
      qed
    next
      assume "\<exists>ys zs. xs = ys @ m # zs \<and> p m \<and> (\<forall>z \<in> set zs. \<not> p z)"
      then obtain ys zs where d: "xs = ys @ m # zs" "p m" "\<forall>z \<in> set zs. \<not> p z" by blast
      then have "xs @ [x] = ys @ m # (zs @ [x])" "\<forall>z \<in> set (zs @ [x]). \<not> p z" using False by auto
      then show "\<exists>ys zs. xs @ [x] = ys @ m # zs \<and> p m \<and> (\<forall>z \<in> set zs. \<not> p z)"
        using d(2) by blast
    qed
    then show ?thesis using False snoc.IH by simp
  qed
qed


section \<open>The context window\<close>

lemma toUpperCase_modelName: "toUpperCase (modelName a) = upperName a"
  by (cases a) (simp_all only: upper_GPT upper_Gemini upper_Claude upperName_def AIModel.case)

text \<open>
  Claim C9. For every utterance log and requesting agent, \<open>buildContextMessages\<close> returns
  the last five utterances of the log (all of them when there are fewer), in log order; each
  fragment is the utterance's content behind the upper-case name of its author in brackets,
  with role assistant when the author is the requesting agent and role user otherwise. It is
  a function of the log and the agent alone.
\<close>

theorem buildContextMessages_window:
  "length (buildContextMessages msgs cur) = min 5 (length msgs) \<and>
   (\<forall>i < min 5 (length msgs).
      cm_role (buildContextMessages msgs cur ! i) =
        (if msg_model (msgs ! (length msgs - min 5 (length msgs) + i)) = cur
         then Assistant else User) \<and>
      cm_content (buildContextMessages msgs cur ! i) =
        ''['' @ upperName (msg_model (msgs ! (length msgs - min 5 (length msgs) + i))) @ '']: ''
          @ msg_content (msgs ! (length msgs - min 5 (length msgs) + i)))"
proof -
  have len: "length (buildContextMessages msgs cur) = min 5 (length msgs)"
    by (simp add: buildContextMessages_def length_slice_from_neg5)
  have idx: "slice_from (- 5) msgs ! i = msgs ! (length msgs - min 5 (length msgs) + i)"
    if "i < min 5 (length msgs)" for i
  proof -
    have "length msgs - 5 = length msgs - min 5 (length msgs)" by simp
    then show ?thesis using that by (simp add: slice_from_neg5 del: diff_diff_cancel)
  qed
  show ?thesis
  proof (intro conjI allI impI)
    show "length (buildContextMessages msgs cur) = min 5 (length msgs)" by (rule len)
  next
    fix i assume i: "i < min 5 (length msgs)"
    then have "i < length (slice_from (- 5) msgs)" by (simp add: length_slice_from_neg5)
    then have nth: "buildContextMessages msgs cur ! i =
        \<lparr> cm_role = (if msg_model (slice_from (- 5) msgs ! i) = cur then Assistant else User),
          cm_content = ''['' @ toUpperCase (modelName (msg_model (slice_from (- 5) msgs ! i)))
                        @ '']: '' @ msg_content (slice_from (- 5) msgs ! i) \<rparr>"
      by (simp add: buildContextMessages_def)
    show "cm_role (buildContextMessages msgs cur ! i) =
        (if msg_model (msgs ! (length msgs - min 5 (length msgs) + i)) = cur
         then Assistant else User)"
      by (simp only: nth idx[OF i] ContextMessage.simps)
    show "cm_content (buildContextMessages msgs cur ! i) =
        ''['' @ upperName (msg_model (msgs ! (length msgs - min 5 (length msgs) + i))) @ '']: ''
          @ msg_content (msgs ! (length msgs - min 5 (length msgs) + i))"
      by (simp only: nth idx[OF i] ContextMessage.simps toUpperCase_modelName)
  qed
qed

theorem buildContextMessages_window_witness:
  "length (buildContextMessages c9_log Gemini) = 5 \<and>
   cm_role (buildContextMessages c9_log Gemini ! 0) = Assistant \<and>
   cm_content (buildContextMessages c9_log Gemini ! 0) = ''[GEMINI]: b'' \<and>
   cm_role (buildContextMessages c9_log Gemini ! 4) = User \<and>
   cm_content (buildContextMessages c9_log Gemini ! 4) = ''[CLAUDE]: f''"
proof -
  have l: "length c9_log = 6" by (simp add: c9_log_def)
  have w: "\<forall>i < min 5 (length c9_log).
      cm_role (buildContextMessages c9_log Gemini ! i) =
        (if msg_model (c9_log ! (length c9_log - min 5 (length c9_log) + i)) = Gemini
         then Assistant else User) \<and>
      cm_content (buildContextMessages c9_log Gemini ! i) =
        ''['' @ upperName (msg_model (c9_log ! (length c9_log - min 5 (length c9_log) + i))) @ '']: ''
          @ msg_content (c9_log ! (length c9_log - min 5 (length c9_log) + i))"
    and n: "length (buildContextMessages c9_log Gemini) = min 5 (length c9_log)"
    using buildContextMessages_window [of c9_log Gemini] by blast+
  have w0: "(0::nat) < min 5 (length c9_log)" and w4: "(4::nat) < min 5 (length c9_log)"
    by (simp_all add: l)
  show ?thesis
    using n w[rule_format, OF w0] w[rule_format, OF w4]
    by (simp add: l) (simp add: c9_log_def mk_msg_def upperName_def)
qed

section \<open>Consensus detection\<close>

lemma lastConsensusMessage_Some:
  "lastConsensusMessage msgs a = Some m \<longleftrightarrow>
     (\<exists>ys zs. msgs = ys @ m # zs \<and> msg_stage m = Consensus \<and> msg_model m = a
        \<and> (\<forall>z \<in> set zs. \<not> (msg_stage z = Consensus \<and> msg_model z = a)))"
proof -
  have "lastConsensusMessage msgs a =
          last_elem (filter (\<lambda>m. msg_stage m = Consensus \<and> msg_model m = a) msgs)"
    by (simp add: lastConsensusMessage_def Let_def)
  then show ?thesis
    using last_elem_filter_Some [of "\<lambda>m. msg_stage m = Consensus \<and> msg_model m = a" msgs m]
    by auto
qed

text \<open>
  Claim C1, as amended. \<open>checkConsensus\<close> is true exactly when the stage is the consensus
  stage, the round is at least 3, and every selected agent, whatever its status, has a
  consensus-stage utterance whose most recent instance (the last one in the log, in any
  round) contains the marker \<open>[CONSENSUS]\<close>. The snapshot it receives carries no agent
  status, so an abstained agent counts like any other.
\<close>

theorem checkConsensus_iff:
  "checkConsensus c \<longleftrightarrow>
     stage c = Consensus \<and> 3 \<le> roundNo c \<and>
     (\<forall>a \<in> set (selectedModels c).
        \<exists>ys m zs. messages c = ys @ m # zs
          \<and> msg_stage m = Consensus \<and> msg_model m = a
          \<and> (\<forall>z \<in> set zs. \<not> (msg_stage z = Consensus \<and> msg_model z = a))
          \<and> str_includes (msg_content m) ''[CONSENSUS]'')"
proof -
  have agent: "(case lastConsensusMessage (messages c) a of None \<Rightarrow> False
                | Some m \<Rightarrow> str_includes (msg_content m) CONSENSUS_MARKER) \<longleftrightarrow>
        (\<exists>ys m zs. messages c = ys @ m # zs
          \<and> msg_stage m = Consensus \<and> msg_model m = a
          \<and> (\<forall>z \<in> set zs. \<not> (msg_stage z = Consensus \<and> msg_model z = a))
          \<and> str_includes (msg_content m) ''[CONSENSUS]'')" (is "?L \<longleftrightarrow> ?R") for a
  proof
    assume ?L
    then obtain m where m: "lastConsensusMessage (messages c) a = Some m"
      and inc: "str_includes (msg_content m) ''[CONSENSUS]''"
      by (auto simp: CONSENSUS_MARKER_def split: option.splits)
    from m obtain ys zs where "messages c = ys @ m # zs" "msg_stage m = Consensus"
      "msg_model m = a" "\<forall>z \<in> set zs. \<not> (msg_stage z = Consensus \<and> msg_model z = a)"
      unfolding lastConsensusMessage_Some by blast
    with inc show ?R by blast
  next
    assume ?R
    then obtain ys m zs where d: "messages c = ys @ m # zs" "msg_stage m = Consensus"
      "msg_model m = a" "\<forall>z \<in> set zs. \<not> (msg_stage z = Consensus \<and> msg_model z = a)"
      and inc: "str_includes (msg_content m) ''[CONSENSUS]''" by blast
    from d have "lastConsensusMessage (messages c) a = Some m"
      unfolding lastConsensusMessage_Some by blast
    with inc show ?L by (simp add: CONSENSUS_MARKER_def)
  qed
  show ?thesis
    by (simp add: checkConsensus_def MIN_CONSENSUS_ROUND_def Let_def list_all_iff agent not_less)
qed

theorem checkConsensus_iff_witness:
  "checkConsensus c1_agreed \<and>
   stage c1_agreed = Consensus \<and> 3 \<le> roundNo c1_agreed \<and>
   Gemini \<in> set (selectedModels c1_agreed) \<and>
   (\<exists>ys m zs. messages c1_agreed = ys @ m # zs
      \<and> msg_stage m = Consensus \<and> msg_model m = Gemini
      \<and> (\<forall>z \<in> set zs. \<not> (msg_stage z = Consensus \<and> msg_model z = Gemini))
      \<and> str_includes (msg_content m) ''[CONSENSUS]'')"
proof -
  have h: "checkConsensus c1_agreed"
    by (simp add: checkConsensus_def c1_agreed_def mk_msg_def lastConsensusMessage_def
        last_elem_def MIN_CONSENSUS_ROUND_def CONSENSUS_MARKER_def)
  have g: "Gemini \<in> set (selectedModels c1_agreed)"
    by (simp add: c1_agreed_def)
  show ?thesis using h g checkConsensus_iff [of c1_agreed] by blast
qed

text \<open>
  With Gemini abstained and only GPT's latest consensus utterance carrying the marker, the
  rule restricted to the agents that have not abstained holds, yet \<open>checkConsensus\<close> is
  false.
\<close>

theorem checkConsensus_abstained_counterexample:
  "claimed_consensus c1_state \<and> \<not> checkConsensus c1_state"
  by (simp add: claimed_consensus_def checkConsensus_def c1_state_def mk_msg_def
      lastConsensusMessage_def last_elem_def MIN_CONSENSUS_ROUND_def CONSENSUS_MARKER_def
      createInitialAIState_def)

section \<open>The turn executor\<close>

text \<open>
  When an exception leaves the attempt with a message that is not classified as a
  credential failure, the executor commits no utterance and leaves the usage counter alone; if the
  agent's retry counter is below 3 it adds one to it and sets the agent's status back to
  idle, without raising the error dialog; otherwise (the counter has reached 3) it sets
  the status to abstained and raises the error dialog for that agent, the counters
  unchanged.
\<close>

lemma transient_failure_retry:
  assumes "attempt response = Inl errorMessage" and "\<not> isCredentialError errorMessage"
  shows "(let v' = executeTurn turn response now_id now_ts v; a = tr_model turn in
      messages (store v') = messages (store v) \<and>
      ai_tokenUsage (aiStates (store v') a) = ai_tokenUsage (aiStates (store v) a) \<and>
      (retryCount v a < 3 \<longrightarrow>
         retryCount v' a = retryCount v a + 1 \<and>
         ai_status (aiStates (store v') a) = Idle \<and>
         apiError v' = apiError v) \<and>
      (3 \<le> retryCount v a \<longrightarrow>
         ai_status (aiStates (store v') a) = Abstained \<and>
         apiError v' = Some (a, CallFailedText) \<and>
         retryCount v' = retryCount v))"
  using assms
  by (simp add: executeTurn_def Let_def finish_def setAIStatus_def RETRY_CEILING_def)

lemma transient_failure_retry_example:
  "attempt ResponseNotOk = Inl ''API request failed'' \<and>
   \<not> isCredentialError ''API request failed'' \<and>
   retryCount ex_view GPT < 3 \<and>
   retryCount (executeTurn (ex_turn GPT) ResponseNotOk 7 8 ex_view) GPT = 1 \<and>
   ai_status (aiStates (store (executeTurn (ex_turn GPT) ResponseNotOk 7 8 ex_view)) GPT) = Idle \<and>
   3 \<le> retryCount ex_view Gemini \<and>
   ai_status (aiStates (store (executeTurn (ex_turn Gemini) ResponseNotOk 7 8 ex_view)) Gemini)
     = Abstained \<and>
   apiError (executeTurn (ex_turn Gemini) ResponseNotOk 7 8 ex_view) = Some (Gemini, CallFailedText) \<and>
   messages (store (executeTurn (ex_turn Gemini) ResponseNotOk 7 8 ex_view)) = messages ex_store"
proof -
  have a: "attempt ResponseNotOk = Inl ''API request failed''" by simp
  have b: "\<not> isCredentialError ''API request failed''" by (simp add: isCredentialError_def)
  have r: "retryCount ex_view GPT = 0" "retryCount ex_view Gemini = 3" "store ex_view = ex_store"
    by (simp_all add: ex_view_def)
  show ?thesis
    using a b r
      transient_failure_retry [OF a b, of "ex_turn GPT" 7 8 ex_view]
      transient_failure_retry [OF a b, of "ex_turn Gemini" 7 8 ex_view]
    by (simp add: Let_def ex_turn_def)
qed

text \<open>
  When an exception leaves the attempt with a message classified as a credential failure
  (it contains \<open>401\<close>, \<open>API key\<close> or \<open>Incorrect\<close>), the executor sets the agent's
  status to abstained at once and raises the error dialog for that agent; no retry counter
  changes (so it stays 0 on a first attempt), no utterance is committed and the usage
  counter is unchanged.
\<close>

lemma credential_failure_abstains:
  assumes "attempt response = Inl errorMessage" and "isCredentialError errorMessage"
  shows "(let v' = executeTurn turn response now_id now_ts v; a = tr_model turn in
      ai_status (aiStates (store v') a) = Abstained \<and>
      apiError v' = Some (a, KeyInvalidText) \<and>
      retryCount v' = retryCount v \<and>
      messages (store v') = messages (store v) \<and>
      ai_tokenUsage (aiStates (store v') a) = ai_tokenUsage (aiStates (store v) a))"
  using assms
  by (simp add: executeTurn_def Let_def finish_def setAIStatus_def)

lemma credential_failure_abstains_example:
  "attempt (Stream [Payload [] ''401 Incorrect API key provided''] None)
     = Inl ''401 Incorrect API key provided'' \<and>
   isCredentialError ''401 Incorrect API key provided'' \<and>
   ai_status (aiStates (store (executeTurn (ex_turn GPT)
       (Stream [Payload [] ''401 Incorrect API key provided''] None) 7 8 ex_view)) GPT) = Abstained \<and>
   retryCount (executeTurn (ex_turn GPT)
       (Stream [Payload [] ''401 Incorrect API key provided''] None) 7 8 ex_view) GPT = 0 \<and>
   messages (store (executeTurn (ex_turn GPT)
       (Stream [Payload [] ''401 Incorrect API key provided''] None) 7 8 ex_view)) = messages ex_store"
proof -
  have a: "attempt (Stream [Payload [] ''401 Incorrect API key provided''] None)
     = Inl ''401 Incorrect API key provided''"
    by (simp add: rethrown_def)
  have b: "isCredentialError ''401 Incorrect API key provided''"
    by (simp add: isCredentialError_def)
  have r: "retryCount ex_view GPT = 0" "store ex_view = ex_store"
    by (simp_all add: ex_view_def)
  show ?thesis
    using a b r credential_failure_abstains [OF a b, of "ex_turn GPT" 7 8 ex_view]
    by (simp add: Let_def ex_turn_def)
qed

text \<open>
  Claim C10. When the stream ends without an error and the accumulated text is empty, the
  executor still appends an utterance with empty content for the stage and round of the
  tick, sets the agent's status to complete and its retry counter to zero; the usage counter
  grows by the estimate for the empty text, which is zero.
\<close>

theorem empty_stream_commits:
  assumes "attempt response = Inr []"
  shows "(let v' = executeTurn turn response now_id now_ts v; a = tr_model turn in
      messages (store v') = messages (store v) @
        [\<lparr> msg_id = modelName a @ ''-'' @ show_nat now_id, msg_model = a, msg_content = [],
           msg_stage = stage (store v), msg_round = roundNo (store v),
           msg_timestamp = now_ts, msg_tokenCount = None \<rparr>] \<and>
      ai_status (aiStates (store v') a) = Complete \<and>
      retryCount v' a = 0 \<and>
      ai_tokenUsage (aiStates (store v') a) = ai_tokenUsage (aiStates (store v) a))"
  using assms
  by (simp add: executeTurn_def Let_def finish_def setAIStatus_def addMessage_def
      updateTokenUsage_def tokenEstimate_def)

theorem empty_stream_commits_witness:
  "attempt (Stream [Payload [] [], DoneMarker] None) = Inr [] \<and>
   messages (store (executeTurn (ex_turn Gemini) (Stream [Payload [] [], DoneMarker] None) 7 8 ex_view))
     = messages ex_store @
        [\<lparr> msg_id = ''gemini-7'', msg_model = Gemini, msg_content = [],
           msg_stage = CrossExam, msg_round = 1, msg_timestamp = 8, msg_tokenCount = None \<rparr>] \<and>
   ai_status (aiStates (store (executeTurn (ex_turn Gemini)
       (Stream [Payload [] [], DoneMarker] None) 7 8 ex_view)) Gemini) = Complete \<and>
   retryCount (executeTurn (ex_turn Gemini) (Stream [Payload [] [], DoneMarker] None) 7 8 ex_view) Gemini = 0"
proof -
  have a: "attempt (Stream [Payload [] [], DoneMarker] None) = Inr []" by simp
  have s: "show_nat 7 = ''7''" by code_simp
  have r: "store ex_view = ex_store" "stage ex_store = CrossExam" "roundNo ex_store = 1"
    by (simp_all add: ex_view_def ex_store_def)
  show ?thesis
    using a r s empty_stream_commits [OF a, of "ex_turn Gemini" 7 8 ex_view]
    by (simp add: Let_def ex_turn_def)
qed

section \<open>Evaluating the examples\<close>

lemmas ex_defs =
  ex_view_def ex_store_def ex_prompts_def ex_refuse_def ex_turn_def mk_msg_def
  createInitialAIState_def

lemmas engine_defs =
  checkConsensus_def shouldAdvanceStage_def shouldAdvanceRound_def getNextTurn_def
  stageMessages_def lastConsensusMessage_def last_elem_def MIN_CONSENSUS_ROUND_def
  CONSENSUS_MARKER_def

section \<open>What a turn may change\<close>



section \<open>The order of the checks in a tick\<close>

lemma truncate_fields:
  "selectedModels (DebateConfig.truncate s) = selectedModels s"
  "topic (DebateConfig.truncate s) = topic s"
  "messages (DebateConfig.truncate s) = messages s"
  "stage (DebateConfig.truncate s) = stage s"
  "roundNo (DebateConfig.truncate s) = roundNo s"
  by (simp_all add: DebateConfig.truncate_def)

lemma engine_truncate:
  "checkConsensus (DebateConfig.truncate s) = checkConsensus s"
  "shouldAdvanceStage (DebateConfig.truncate s) = shouldAdvanceStage s"
  "shouldAdvanceRound (DebateConfig.truncate s) = shouldAdvanceRound s"
  "getNextTurn P (DebateConfig.truncate s) = getNextTurn P s"
  by (simp_all add: checkConsensus_def shouldAdvanceStage_def shouldAdvanceRound_def
      getNextTurn_def stageMessages_def truncate_fields Let_def
      split: option.splits)

lemma runTurn_unfold:
  "runTurn P respond now_id now_ts v =
     (if isPaused (store v) \<or> isComplete (store v) \<or> isRunning v then (NoAction, v)
      else if checkConsensus (store v)
        then (ConsensusReached, v\<lparr>store := setComplete True (store v)\<rparr>)
      else if fst (shouldAdvanceStage (store v)) then
        (if getNextStage (stage (store v)) = Result
         then (DebateOver, v\<lparr>store := setComplete False (store v)\<rparr>)
         else (StageAdvanced (getNextStage (stage (store v))),
               v\<lparr>store := setRound 1 (setStage (getNextStage (stage (store v))) (store v))\<rparr>))
      else if shouldAdvanceRound (store v)
        then (RoundAdvanced (roundNo (store v) + 1),
              v\<lparr>store := setRound (roundNo (store v) + 1) (store v)\<rparr>)
      else (case getNextTurn P (store v) of
              None \<Rightarrow> (NoAction, v)
            | Some turn \<Rightarrow>
                (TurnProduced (chatRequest v turn),
                 executeTurn turn (respond (chatRequest v turn)) now_id now_ts v)))"
  by (simp add: runTurn_def Let_def engine_truncate truncate_fields)
     (simp add: shouldAdvanceStage_def)

text \<open>
  Claim C4. On a tick of a session that is neither paused nor complete, exactly one branch
  is taken, in this order: nothing while a turn is in flight; else completion with
  consensus when \<open>checkConsensus\<close> holds; else the stage advance (or completion without
  consensus when the next stage is the result) when the round has reached the maximum of
  the stage; else the round advance when \<open>shouldAdvanceRound\<close> holds; else the turn of
  \<open>getNextTurn\<close>, if any. A request is sent to a model only when none of the three
  checks applies.
\<close>

theorem runTurn_priority:
  assumes "\<not> isPaused (store v)" and "\<not> isComplete (store v)"
  shows
   "(isRunning v \<longrightarrow> runTurn P respond now_id now_ts v = (NoAction, v)) \<and>
    (\<not> isRunning v \<and> checkConsensus (store v) \<longrightarrow>
       runTurn P respond now_id now_ts v
         = (ConsensusReached, v\<lparr>store := setComplete True (store v)\<rparr>)) \<and>
    (\<not> isRunning v \<and> \<not> checkConsensus (store v) \<and> fst (shouldAdvanceStage (store v)) \<longrightarrow>
       runTurn P respond now_id now_ts v
         = (if getNextStage (stage (store v)) = Result
            then (DebateOver, v\<lparr>store := setComplete False (store v)\<rparr>)
            else (StageAdvanced (getNextStage (stage (store v))),
                  v\<lparr>store := setRound 1 (setStage (getNextStage (stage (store v))) (store v))\<rparr>))) \<and>
    (\<not> isRunning v \<and> \<not> checkConsensus (store v) \<and> \<not> fst (shouldAdvanceStage (store v))
       \<and> shouldAdvanceRound (store v) \<longrightarrow>
       runTurn P respond now_id now_ts v
         = (RoundAdvanced (roundNo (store v) + 1),
            v\<lparr>store := setRound (roundNo (store v) + 1) (store v)\<rparr>)) \<and>
    (\<not> isRunning v \<and> \<not> checkConsensus (store v) \<and> \<not> fst (shouldAdvanceStage (store v))
       \<and> \<not> shouldAdvanceRound (store v) \<longrightarrow>
       runTurn P respond now_id now_ts v
         = (case getNextTurn P (store v) of
              None \<Rightarrow> (NoAction, v)
            | Some turn \<Rightarrow>
                (TurnProduced (chatRequest v turn),
                 executeTurn turn (respond (chatRequest v turn)) now_id now_ts v))) \<and>
    (\<forall>rq. fst (runTurn P respond now_id now_ts v) = TurnProduced rq \<longrightarrow>
       \<not> isRunning v \<and> \<not> checkConsensus (store v) \<and> \<not> fst (shouldAdvanceStage (store v))
       \<and> \<not> shouldAdvanceRound (store v))"
  using assms
  by (simp add: runTurn_unfold split: option.splits)


theorem runTurn_priority_witness:
  "\<not> isPaused (store ex_view) \<and> \<not> isComplete (store ex_view) \<and>
   producedFor (fst (runTurn ex_prompts ex_refuse 7 8 ex_view)) = Some Gemini \<and>
   fst (runTurn ex_prompts ex_refuse 7 8 ex_round_view) = RoundAdvanced 2 \<and>
   fst (runTurn ex_prompts ex_refuse 7 8 ex_stage_view) = StageAdvanced CommonGround \<and>
   fst (runTurn ex_prompts ex_refuse 7 8 ex_agreed_view) = ConsensusReached \<and>
   fst (runTurn ex_prompts ex_refuse 7 8 (ex_view\<lparr>isRunning := True\<rparr>)) = NoAction"
proof -
  have g: "\<not> isPaused (store ex_view)" "\<not> isComplete (store ex_view)"
    by (simp_all add: ex_defs)
  have g1: "\<not> isPaused (store ex_round_view)" "\<not> isComplete (store ex_round_view)"
    by (simp_all add: ex_round_view_def ex_defs)
  have g2: "\<not> isPaused (store ex_stage_view)" "\<not> isComplete (store ex_stage_view)"
    by (simp_all add: ex_stage_view_def ex_defs)
  have g3: "\<not> isPaused (store ex_agreed_view)" "\<not> isComplete (store ex_agreed_view)"
    by (simp_all add: ex_agreed_view_def ex_defs)
  have g4: "\<not> isPaused (store (ex_view\<lparr>isRunning := True\<rparr>))"
    "\<not> isComplete (store (ex_view\<lparr>isRunning := True\<rparr>))"
    by (simp_all add: ex_defs)
  have c: "\<not> isRunning ex_view \<and> \<not> checkConsensus (store ex_view)
      \<and> \<not> fst (shouldAdvanceStage (store ex_view)) \<and> \<not> shouldAdvanceRound (store ex_view)"
    by (simp add: ex_defs engine_defs)
  have n: "map_option tr_model (getNextTurn ex_prompts (store ex_view)) = Some Gemini"
    by (simp add: ex_defs engine_defs Let_def)
  have c1: "\<not> isRunning ex_round_view \<and> \<not> checkConsensus (store ex_round_view)
      \<and> \<not> fst (shouldAdvanceStage (store ex_round_view)) \<and> shouldAdvanceRound (store ex_round_view)"
    "roundNo (store ex_round_view) + 1 = 2"
    by (simp_all add: ex_round_view_def ex_defs engine_defs)
  have c2: "\<not> isRunning ex_stage_view \<and> \<not> checkConsensus (store ex_stage_view)
      \<and> fst (shouldAdvanceStage (store ex_stage_view))"
    "getNextStage (stage (store ex_stage_view)) = CommonGround"
    by (simp_all add: ex_stage_view_def ex_defs engine_defs)
  have c3: "\<not> isRunning ex_agreed_view \<and> checkConsensus (store ex_agreed_view)"
    by (simp add: ex_agreed_view_def ex_defs engine_defs)
  have c4: "isRunning (ex_view\<lparr>isRunning := True\<rparr>)" by simp
  from n obtain turn where t: "getNextTurn ex_prompts (store ex_view) = Some turn"
    "tr_model turn = Gemini" by auto
  have "producedFor (fst (runTurn ex_prompts ex_refuse 7 8 ex_view)) = Some Gemini"
    using runTurn_priority [OF g, of ex_prompts ex_refuse 7 8] c t
    by (simp add: producedFor_def chatRequest_def)
  moreover have "fst (runTurn ex_prompts ex_refuse 7 8 ex_round_view) = RoundAdvanced 2"
    using runTurn_priority [OF g1, of ex_prompts ex_refuse 7 8] c1 by simp
  moreover have "fst (runTurn ex_prompts ex_refuse 7 8 ex_stage_view) = StageAdvanced CommonGround"
    using runTurn_priority [OF g2, of ex_prompts ex_refuse 7 8] c2 by simp
  moreover have "fst (runTurn ex_prompts ex_refuse 7 8 ex_agreed_view) = ConsensusReached"
    using runTurn_priority [OF g3, of ex_prompts ex_refuse 7 8] c3 by simp
  moreover have "fst (runTurn ex_prompts ex_refuse 7 8 (ex_view\<lparr>isRunning := True\<rparr>)) = NoAction"
    using runTurn_priority [OF g4, of ex_prompts ex_refuse 7 8] c4 by simp
  ultimately show ?thesis using g by blast
qed

section \<open>The utterance log\<close>

lemma findIndex_None: "findIndex p xs = None \<longleftrightarrow> (\<forall>x \<in> set xs. \<not> p x)"
  by (induction xs) auto

lemma findIndex_first:
  "i < length xs \<Longrightarrow> p (xs ! i) \<Longrightarrow> (\<forall>j < i. \<not> p (xs ! j)) \<Longrightarrow> findIndex p xs = Some i"
proof (induction xs arbitrary: i)
  case Nil
  then show ?case by simp
next
  case (Cons x xs)
  show ?case
  proof (cases i)
    case 0
    then show ?thesis using Cons.prems by simp
  next
    case (Suc k)
    then have "\<not> p x" using Cons.prems(3) by auto
    moreover have "findIndex p xs = Some k"
    proof (rule Cons.IH)
      show "k < length xs" using Cons.prems(1) Suc by simp
      show "p (xs ! k)" using Cons.prems(2) Suc by simp
      show "\<forall>j < k. \<not> p (xs ! j)"
      proof (intro allI impI)
        fix j assume "j < k"
        then have "Suc j < i" using Suc by simp
        then have "\<not> p ((x # xs) ! Suc j)" using Cons.prems(3) by blast
        then show "\<not> p (xs ! j)" by simp
      qed
    qed
    ultimately show ?thesis using Suc by simp
  qed
qed

lemma executeTurn_log:
  "prefix (messages (store v)) (messages (store (executeTurn turn response now_id now_ts v)))"
  by (simp add: executeTurn_def Let_def finish_def setAIStatus_def addMessage_def
      updateTokenUsage_def split: sum.splits)

lemma runTurn_log:
  "prefix (messages (store v)) (messages (store (snd (runTurn P respond now_id now_ts v))))"
  by (simp add: runTurn_unfold executeTurn_log setComplete_def setRound_def setStage_def
      split: option.splits)

text \<open>
  Claim C7, as amended. Every action of the store other than \<open>updateStreamingMessage\<close> and
  \<open>reset\<close> leaves each utterance already in the log as it is: the old log is a prefix of
  the new one. \<open>updateStreamingMessage\<close> appends an utterance when the model has none for
  the current stage and round, and otherwise overwrites the content of the first such
  utterance, all its other fields and all other utterances unchanged. \<open>reset\<close> empties the
  log. A tick of the debate view never rewrites the log: it keeps the text in progress in
  its own cell, and the log before the tick is a prefix of the log after it.
\<close>

theorem store_log_append_only_but_streaming_and_reset:
  "(\<not> rewritesLog action \<longrightarrow> prefix (messages s) (messages (dispatch action s))) \<and>
   ((\<forall>m \<in> set (messages s).
        \<not> (msg_model m = model \<and> msg_stage m = stage s \<and> msg_round m = roundNo s)) \<longrightarrow>
      messages (dispatch (UpdateStreamingMessage model content now_id now_ts) s) =
        messages s @
          [\<lparr> msg_id = modelName model @ ''-'' @ show_nat now_id, msg_model = model,
             msg_content = content, msg_stage = stage s, msg_round = roundNo s,
             msg_timestamp = now_ts, msg_tokenCount = None \<rparr>]) \<and>
   (\<forall>i. i < length (messages s) \<and>
        (msg_model (messages s ! i) = model \<and> msg_stage (messages s ! i) = stage s
           \<and> msg_round (messages s ! i) = roundNo s) \<and>
        (\<forall>j < i. \<not> (msg_model (messages s ! j) = model \<and> msg_stage (messages s ! j) = stage s
           \<and> msg_round (messages s ! j) = roundNo s)) \<longrightarrow>
      messages (dispatch (UpdateStreamingMessage model content now_id now_ts) s) =
        (messages s)[i := (messages s ! i)\<lparr>msg_content := content\<rparr>]) \<and>
   messages (dispatch Reset s) = [] \<and>
   prefix (messages (store v)) (messages (store (snd (runTurn P respond t1 t2 v))))"
proof (intro conjI)
  show "\<not> rewritesLog action \<longrightarrow> prefix (messages s) (messages (dispatch action s))"
    by (cases action)
       (simp_all add: setTopic_def setStage_def setRound_def addMessage_def toggleModel_def
          setApiKey_def setAIStatus_def updateTokenUsage_def togglePause_def setComplete_def)
next
  show "(\<forall>m \<in> set (messages s).
        \<not> (msg_model m = model \<and> msg_stage m = stage s \<and> msg_round m = roundNo s)) \<longrightarrow>
      messages (dispatch (UpdateStreamingMessage model content now_id now_ts) s) =
        messages s @
          [\<lparr> msg_id = modelName model @ ''-'' @ show_nat now_id, msg_model = model,
             msg_content = content, msg_stage = stage s, msg_round = roundNo s,
             msg_timestamp = now_ts, msg_tokenCount = None \<rparr>]"
  proof
    assume "\<forall>m \<in> set (messages s).
        \<not> (msg_model m = model \<and> msg_stage m = stage s \<and> msg_round m = roundNo s)"
    then have "findIndex (\<lambda>m. msg_model m = model \<and> msg_stage m = stage s \<and> msg_round m = roundNo s)
        (messages s) = None"
      unfolding findIndex_None by blast
    then show "messages (dispatch (UpdateStreamingMessage model content now_id now_ts) s) =
        messages s @
          [\<lparr> msg_id = modelName model @ ''-'' @ show_nat now_id, msg_model = model,
             msg_content = content, msg_stage = stage s, msg_round = roundNo s,
             msg_timestamp = now_ts, msg_tokenCount = None \<rparr>]"
      by (simp add: updateStreamingMessage_def)
  qed
next
  show "\<forall>i. i < length (messages s) \<and>
        (msg_model (messages s ! i) = model \<and> msg_stage (messages s ! i) = stage s
           \<and> msg_round (messages s ! i) = roundNo s) \<and>
        (\<forall>j < i. \<not> (msg_model (messages s ! j) = model \<and> msg_stage (messages s ! j) = stage s
           \<and> msg_round (messages s ! j) = roundNo s)) \<longrightarrow>
      messages (dispatch (UpdateStreamingMessage model content now_id now_ts) s) =
        (messages s)[i := (messages s ! i)\<lparr>msg_content := content\<rparr>]"
  proof (intro allI impI)
    fix i
    assume a: "i < length (messages s) \<and>
        (msg_model (messages s ! i) = model \<and> msg_stage (messages s ! i) = stage s
           \<and> msg_round (messages s ! i) = roundNo s) \<and>
        (\<forall>j < i. \<not> (msg_model (messages s ! j) = model \<and> msg_stage (messages s ! j) = stage s
           \<and> msg_round (messages s ! j) = roundNo s))"
    have "findIndex (\<lambda>m. msg_model m = model \<and> msg_stage m = stage s \<and> msg_round m = roundNo s)
        (messages s) = Some i"
      by (rule findIndex_first) (use a in blast)+
    then show "messages (dispatch (UpdateStreamingMessage model content now_id now_ts) s) =
        (messages s)[i := (messages s ! i)\<lparr>msg_content := content\<rparr>]"
      by (simp add: updateStreamingMessage_def)
  qed
next
  show "messages (dispatch Reset s) = []"
    by (simp add: reset_def initialState_def)
next
  show "prefix (messages (store v)) (messages (store (snd (runTurn P respond t1 t2 v))))"
    by (rule runTurn_log)
qed

theorem store_log_append_only_but_streaming_and_reset_witness:
  "\<not> rewritesLog (SetAIStatus Gemini Abstained) \<and>
   prefix (messages ex_store) (messages (dispatch (SetAIStatus Gemini Abstained) ex_store)) \<and>
   messages (dispatch (UpdateStreamingMessage Gemini ''part'' 7 8) ex_store) =
     messages ex_store @
       [\<lparr> msg_id = ''gemini-7'', msg_model = Gemini, msg_content = ''part'',
          msg_stage = CrossExam, msg_round = 1, msg_timestamp = 8, msg_tokenCount = None \<rparr>] \<and>
   messages (dispatch (UpdateStreamingMessage GPT ''part'' 7 8) ex_store) =
     [mk_msg GPT Position 0 ''p0'', mk_msg Gemini Position 0 ''q0'',
      mk_msg GPT CrossExam 1 ''part'']"
proof -
  have s: "show_nat 7 = ''7''" by code_simp
  have m: "messages ex_store = [mk_msg GPT Position 0 ''p0'', mk_msg Gemini Position 0 ''q0'',
                   mk_msg GPT CrossExam 1 ''p1'']" "stage ex_store = CrossExam" "roundNo ex_store = 1"
    by (simp_all add: ex_store_def)
  have h1: "\<not> rewritesLog (SetAIStatus Gemini Abstained)" by simp
  have h2: "\<forall>m \<in> set (messages ex_store).
        \<not> (msg_model m = Gemini \<and> msg_stage m = stage ex_store \<and> msg_round m = roundNo ex_store)"
    by (simp add: m mk_msg_def)
  have h3: "(2::nat) < length (messages ex_store) \<and>
        (msg_model (messages ex_store ! 2) = GPT \<and> msg_stage (messages ex_store ! 2) = stage ex_store
           \<and> msg_round (messages ex_store ! 2) = roundNo ex_store) \<and>
        (\<forall>j < 2. \<not> (msg_model (messages ex_store ! j) = GPT \<and> msg_stage (messages ex_store ! j) = stage ex_store
           \<and> msg_round (messages ex_store ! j) = roundNo ex_store))"
    by (simp add: m mk_msg_def less_Suc_eq numeral_2_eq_2)
  note t = store_log_append_only_but_streaming_and_reset
  have "prefix (messages ex_store) (messages (dispatch (SetAIStatus Gemini Abstained) ex_store))"
    using t [of "SetAIStatus Gemini Abstained" ex_store] h1 by blast
  moreover have "messages (dispatch (UpdateStreamingMessage Gemini ''part'' 7 8) ex_store) =
     messages ex_store @
       [\<lparr> msg_id = ''gemini-7'', msg_model = Gemini, msg_content = ''part'',
          msg_stage = CrossExam, msg_round = 1, msg_timestamp = 8, msg_tokenCount = None \<rparr>]"
    using t [of "SetTopic []" ex_store Gemini "''part''" 7 8] h2 s m(2,3) by simp
  moreover have "messages (dispatch (UpdateStreamingMessage GPT ''part'' 7 8) ex_store) =
     (messages ex_store)[2 := (messages ex_store ! 2)\<lparr>msg_content := ''part''\<rparr>]"
    using t [of "SetTopic []" ex_store GPT "''part''" 7 8] h3 by blast
  ultimately show ?thesis using h1 by (simp add: m mk_msg_def)
qed

text \<open>
  The third utterance of the example session is GPT's for the current stage and round;
  \<open>updateStreamingMessage\<close> replaces its content.
\<close>

theorem updateStreamingMessage_edits_counterexample:
  "msg_content (messages ex_store ! 2) = ''p1'' \<and>
   msg_content (messages (dispatch (UpdateStreamingMessage GPT ''part'' 7 8) ex_store) ! 2) = ''part''"
  by (simp add: ex_store_def mk_msg_def updateStreamingMessage_def)

section \<open>Round advance and turn selection\<close>

lemma stageMessages_bound:
  assumes "oneUtterancePerRound s"
  shows "length (stageMessages s) \<le> length (selectedModels s)"
proof -
  let ?f = "\<lambda>m. (msg_stage m, msg_round m, msg_model m)"
  let ?sm = "stageMessages s"
  have d: "distinct (map ?f ?sm)"
    using assms by (simp add: oneUtterancePerRound_def stageMessages_def distinct_map_filter)
  have "map ?f ?sm = map (\<lambda>a. (stage s, roundNo s, a)) (map msg_model ?sm)"
    by (simp add: stageMessages_def)
  with d have "distinct (map (\<lambda>a. (stage s, roundNo s, a)) (map msg_model ?sm))" by simp
  then have dm: "distinct (map msg_model ?sm)" by (simp only: distinct_map)
  have sub: "set (map msg_model ?sm) \<subseteq> set (selectedModels s)"
    using assms by (auto simp: oneUtterancePerRound_def stageMessages_def list_all_iff)
  have "length ?sm = card (set (map msg_model ?sm))"
    using dm distinct_card [of "map msg_model ?sm"] by simp
  also have "\<dots> \<le> card (set (selectedModels s))"
    by (rule card_mono) (use sub in simp_all)
  also have "\<dots> \<le> length (selectedModels s)" by (rule card_length)
  finally show ?thesis .
qed

lemma getNextTurn_model:
  "map_option tr_model (getNextTurn P s) =
     (if stage s = Result \<or> stage s = TopicInput \<or> stage s = ModelSelect then None
      else find (\<lambda>m. m \<notin> msg_model ` set (stageMessages s)) (selectedModels s))"
  by (simp add: getNextTurn_def Let_def split: option.splits)

lemma getNextTurn_Some:
  assumes "getNextTurn P s = Some turn"
  shows "\<exists>ys zs. selectedModels s = ys @ tr_model turn # zs \<and>
           (\<forall>b \<in> set ys. b \<in> msg_model ` set (stageMessages s)) \<and>
           tr_model turn \<notin> msg_model ` set (stageMessages s)"
proof -
  let ?a = "tr_model turn"
  have "map_option tr_model (getNextTurn P s) = Some ?a" using assms by simp
  then have f: "find (\<lambda>m. m \<notin> msg_model ` set (stageMessages s)) (selectedModels s) = Some ?a"
    unfolding getNextTurn_model by (simp split: if_splits)
  from f obtain i where i: "i < length (selectedModels s)"
    "selectedModels s ! i \<notin> msg_model ` set (stageMessages s)" "?a = selectedModels s ! i"
    "\<forall>j < i. selectedModels s ! j \<in> msg_model ` set (stageMessages s)"
    unfolding find_Some_iff by blast
  have "selectedModels s = take i (selectedModels s) @ ?a # drop (Suc i) (selectedModels s)"
    using i(1,3) by (simp add: id_take_nth_drop)
  moreover have "\<forall>b \<in> set (take i (selectedModels s)). b \<in> msg_model ` set (stageMessages s)"
  proof
    fix b assume "b \<in> set (take i (selectedModels s))"
    then obtain j where "j < i" "b = selectedModels s ! j"
      using i(1) by (auto simp: in_set_conv_nth)
    then show "b \<in> msg_model ` set (stageMessages s)" using i(4) by blast
  qed
  ultimately show ?thesis using i(2,3) by metis
qed

lemma getNextTurn_not_None:
  assumes "stage s = Position \<or> stage s = CrossExam \<or> stage s = CommonGround \<or> stage s = Consensus"
    and "\<exists>b \<in> set (selectedModels s). b \<notin> msg_model ` set (stageMessages s)"
  shows "getNextTurn P s \<noteq> None"
proof -
  have "find (\<lambda>m. m \<notin> msg_model ` set (stageMessages s)) (selectedModels s) \<noteq> None"
    using assms(2) by (auto simp: find_None_iff)
  moreover have "stage s \<noteq> Result \<and> stage s \<noteq> TopicInput \<and> stage s \<noteq> ModelSelect"
    using assms(1) by auto
  ultimately have "map_option tr_model (getNextTurn P s) \<noteq> None"
    unfolding getNextTurn_model by simp
  then show ?thesis by simp
qed

lemma executeTurn_inv:
  assumes "oneUtterancePerRound (store v)" and "getNextTurn P (store v) = Some turn"
  shows "oneUtterancePerRound (store (executeTurn turn response now_id now_ts v))"
proof -
  from getNextTurn_Some [OF assms(2)]
  have sel: "tr_model turn \<in> set (selectedModels (store v))"
    and silent: "tr_model turn \<notin> msg_model ` set (stageMessages (store v))" by auto
  have fresh: "(stage (store v), roundNo (store v), tr_model turn)
      \<notin> (\<lambda>m. (msg_stage m, msg_round m, msg_model m)) ` set (messages (store v))"
    using silent by (auto simp: stageMessages_def)
  show ?thesis
    using assms(1) sel fresh
    by (auto simp: executeTurn_def Let_def finish_def setAIStatus_def addMessage_def
        updateTokenUsage_def oneUtterancePerRound_def split: sum.splits)
qed

lemma runTurn_inv:
  assumes "oneUtterancePerRound (store v)"
  shows "oneUtterancePerRound (store (snd (runTurn P respond now_id now_ts v)))"
proof -
  have other: "oneUtterancePerRound (setComplete b (store v))"
    "oneUtterancePerRound (setRound r (store v))"
    "oneUtterancePerRound (setRound r (setStage st (store v)))" for b r st
    using assms by (simp_all add: oneUtterancePerRound_def setComplete_def setRound_def setStage_def)
  show ?thesis
    using assms other executeTurn_inv [OF assms]
    by (simp add: runTurn_unfold split: option.splits)
qed

text \<open>
  The state holds when the store is created and while the agents are chosen, before any
  utterance exists.
\<close>

lemma oneUtterancePerRound_initial: "oneUtterancePerRound initialState"
  by (simp add: oneUtterancePerRound_def initialState_def)

lemma oneUtterancePerRound_toggleModel:
  assumes "messages s = []" and "distinct (selectedModels s)"
  shows "oneUtterancePerRound (toggleModel a s)" and "messages (toggleModel a s) = []"
    and "distinct (selectedModels (toggleModel a s))"
  using assms by (simp_all add: oneUtterancePerRound_def toggleModel_def)

lemma oneUtterancePerRound_setStage:
  "oneUtterancePerRound (setStage st s) = oneUtterancePerRound s"
  by (simp add: oneUtterancePerRound_def setStage_def)

lemma executeTurn_stage_round:
  "stage (store (executeTurn turn response now_id now_ts v)) = stage (store v)"
  "roundNo (store (executeTurn turn response now_id now_ts v)) = roundNo (store v)"
  by (simp_all add: executeTurn_def Let_def finish_def setAIStatus_def addMessage_def
      updateTokenUsage_def split: sum.splits)

lemma getNextStage_moves: "getNextStage st = st \<Longrightarrow> getNextStage st = Result"
  by (cases st) simp_all

text \<open>
  Claim C2, as amended. The round-advance check compares the number of utterances for the
  current stage and round with the number of all selected agents; the status of an agent
  does not enter it, so abstained agents are counted. In a session in which no agent has
  two utterances for one stage and round and every utterance is by a selected agent (this
  holds when the debate starts and every tick keeps it), a tick advances the round only
  when exactly as many utterances as there are selected agents exist for the current
  stage and round, and then by one within the same stage; a tick that changes the round
  and not the stage is such an advance.
\<close>

theorem round_advance_counts_every_selected_agent:
  assumes "oneUtterancePerRound (store v)"
  shows
   "oneUtterancePerRound (store (snd (runTurn P respond now_id now_ts v))) \<and>
    (\<forall>r. fst (runTurn P respond now_id now_ts v) = RoundAdvanced r \<longrightarrow>
       length (stageMessages (store v)) = length (selectedModels (store v)) \<and>
       r = roundNo (store v) + 1 \<and>
       roundNo (store (snd (runTurn P respond now_id now_ts v))) = r \<and>
       stage (store (snd (runTurn P respond now_id now_ts v))) = stage (store v)) \<and>
    (stage (store (snd (runTurn P respond now_id now_ts v))) = stage (store v) \<and>
     roundNo (store (snd (runTurn P respond now_id now_ts v))) \<noteq> roundNo (store v) \<longrightarrow>
       fst (runTurn P respond now_id now_ts v) = RoundAdvanced (roundNo (store v) + 1)) \<and>
    shouldAdvanceRound (setAIStatus a status (store v)) = shouldAdvanceRound (store v)"
proof (intro conjI)
  show "oneUtterancePerRound (store (snd (runTurn P respond now_id now_ts v)))"
    by (rule runTurn_inv [OF assms])
next
  show "\<forall>r. fst (runTurn P respond now_id now_ts v) = RoundAdvanced r \<longrightarrow>
       length (stageMessages (store v)) = length (selectedModels (store v)) \<and>
       r = roundNo (store v) + 1 \<and>
       roundNo (store (snd (runTurn P respond now_id now_ts v))) = r \<and>
       stage (store (snd (runTurn P respond now_id now_ts v))) = stage (store v)"
  proof (intro allI impI)
    fix r assume r: "fst (runTurn P respond now_id now_ts v) = RoundAdvanced r"
    then have adv: "shouldAdvanceRound (store v)"
      and run: "runTurn P respond now_id now_ts v
          = (RoundAdvanced (roundNo (store v) + 1),
             v\<lparr>store := setRound (roundNo (store v) + 1) (store v)\<rparr>)"
      by (auto simp: runTurn_unfold split: if_splits option.splits)
    from adv stageMessages_bound [OF assms]
    have "length (stageMessages (store v)) = length (selectedModels (store v))"
      by (simp add: shouldAdvanceRound_def)
    then show "length (stageMessages (store v)) = length (selectedModels (store v)) \<and>
       r = roundNo (store v) + 1 \<and>
       roundNo (store (snd (runTurn P respond now_id now_ts v))) = r \<and>
       stage (store (snd (runTurn P respond now_id now_ts v))) = stage (store v)"
      using r run by (simp add: setRound_def)
  qed
next
  note ex = executeTurn_stage_round [of _ _ now_id now_ts v]
  show "stage (store (snd (runTurn P respond now_id now_ts v))) = stage (store v) \<and>
     roundNo (store (snd (runTurn P respond now_id now_ts v))) \<noteq> roundNo (store v) \<longrightarrow>
       fst (runTurn P respond now_id now_ts v) = RoundAdvanced (roundNo (store v) + 1)"
    using getNextStage_moves [of "stage (store v)"]
    by (auto simp: runTurn_unfold ex setComplete_def setRound_def setStage_def
        split: if_splits option.splits)
next
  show "shouldAdvanceRound (setAIStatus a status (store v)) = shouldAdvanceRound (store v)"
    by (simp add: shouldAdvanceRound_def stageMessages_def setAIStatus_def)
qed


theorem round_advance_counts_every_selected_agent_witness:
  "oneUtterancePerRound (store ex_round_view) \<and>
   fst (runTurn ex_prompts ex_refuse 7 8 ex_round_view) = RoundAdvanced 2 \<and>
   length (stageMessages (store ex_round_view)) = length (selectedModels (store ex_round_view)) \<and>
   roundNo (store (snd (runTurn ex_prompts ex_refuse 7 8 ex_round_view))) = 2"
proof -
  have h: "oneUtterancePerRound (store ex_round_view)"
    by (simp add: oneUtterancePerRound_def ex_round_view_def ex_defs)
  have r: "fst (runTurn ex_prompts ex_refuse 7 8 ex_round_view) = RoundAdvanced 2"
    by (simp add: runTurn_unfold ex_round_view_def ex_defs engine_defs)
  note t = round_advance_counts_every_selected_agent [OF h, where P = ex_prompts
        and respond = ex_refuse and now_id = 7 and now_ts = 8 and a = Gemini and status = Abstained]
  note c = t [THEN conjunct2, THEN conjunct1, rule_format, OF r]
  from c have "length (stageMessages (store ex_round_view)) = length (selectedModels (store ex_round_view))"
    and "roundNo (store (snd (runTurn ex_prompts ex_refuse 7 8 ex_round_view))) = 2"
    by (rule conjunct1, rule conjunct2 [THEN conjunct2, THEN conjunct1])
  with h r show ?thesis by (intro conjI)
qed

text \<open>
  After Gemini has abstained, GPT's utterance is the only one for the round and GPT is the
  only agent that has not abstained; yet the check finds the round incomplete.
\<close>

theorem shouldAdvanceRound_abstained_counterexample:
  "claimed_roundComplete ex_abstained_store \<and> \<not> shouldAdvanceRound ex_abstained_store"
  by (simp add: claimed_roundComplete_def shouldAdvanceRound_def stageMessages_def
      ex_abstained_store_def setAIStatus_def ex_defs)

lemma engine_setAIStatus:
  "checkConsensus (setAIStatus a status s) = checkConsensus s"
  "shouldAdvanceStage (setAIStatus a status s) = shouldAdvanceStage s"
  "shouldAdvanceRound (setAIStatus a status s) = shouldAdvanceRound s"
  "getNextTurn P (setAIStatus a status s) = getNextTurn P s"
  by (simp_all add: checkConsensus_def shouldAdvanceStage_def shouldAdvanceRound_def
      getNextTurn_def stageMessages_def setAIStatus_def Let_def split: option.splits)

text \<open>
  Claim C3, as amended. The decision of a tick, and with it the selection of the next
  agent, does not depend on the status of any agent. \<open>getNextTurn\<close> selects the first agent
  in participant order that has no utterance for the current stage and round, and it
  selects one whenever the stage is a debate stage and such an agent exists. So an agent is
  not selected again only for a stage and round in which it has spoken; an abstained agent
  that has not spoken is selected like any other.
\<close>

theorem getNextTurn_first_silent_agent:
  "fst (runTurn P respond now_id now_ts (v\<lparr>store := setAIStatus a status (store v)\<rparr>))
     = fst (runTurn P respond now_id now_ts v) \<and>
   (\<forall>turn. getNextTurn P s = Some turn \<longrightarrow>
      (\<exists>ys zs. selectedModels s = ys @ tr_model turn # zs \<and>
         (\<forall>b \<in> set ys. b \<in> msg_model ` set (stageMessages s)) \<and>
         tr_model turn \<notin> msg_model ` set (stageMessages s))) \<and>
   ((stage s = Position \<or> stage s = CrossExam \<or> stage s = CommonGround \<or> stage s = Consensus) \<and>
    (\<exists>b \<in> set (selectedModels s). b \<notin> msg_model ` set (stageMessages s)) \<longrightarrow>
      getNextTurn P s \<noteq> None)"
proof (intro conjI)
  note e = engine_setAIStatus
  have f: "isPaused (setAIStatus a status (store v)) = isPaused (store v)"
    "isComplete (setAIStatus a status (store v)) = isComplete (store v)"
    "stage (setAIStatus a status (store v)) = stage (store v)"
    "roundNo (setAIStatus a status (store v)) = roundNo (store v)"
    by (simp_all add: setAIStatus_def)
  have c: "chatRequest (v\<lparr>store := setAIStatus a status (store v)\<rparr>) turn = chatRequest v turn"
    for turn
    by (simp add: chatRequest_def setAIStatus_def)
  show "fst (runTurn P respond now_id now_ts (v\<lparr>store := setAIStatus a status (store v)\<rparr>))
     = fst (runTurn P respond now_id now_ts v)"
    by (simp add: runTurn_unfold e f c split: option.splits)
next
  show "\<forall>turn. getNextTurn P s = Some turn \<longrightarrow>
      (\<exists>ys zs. selectedModels s = ys @ tr_model turn # zs \<and>
         (\<forall>b \<in> set ys. b \<in> msg_model ` set (stageMessages s)) \<and>
         tr_model turn \<notin> msg_model ` set (stageMessages s))"
    using getNextTurn_Some by blast
next
  show "(stage s = Position \<or> stage s = CrossExam \<or> stage s = CommonGround \<or> stage s = Consensus) \<and>
    (\<exists>b \<in> set (selectedModels s). b \<notin> msg_model ` set (stageMessages s)) \<longrightarrow>
      getNextTurn P s \<noteq> None"
    using getNextTurn_not_None by blast
qed

theorem getNextTurn_first_silent_agent_witness:
  "stage ex_abstained_store = CrossExam \<and>
   Gemini \<in> set (selectedModels ex_abstained_store) \<and>
   Gemini \<notin> msg_model ` set (stageMessages ex_abstained_store) \<and>
   getNextTurn ex_prompts ex_abstained_store \<noteq> None \<and>
   tr_model (the (getNextTurn ex_prompts ex_abstained_store))
     \<notin> msg_model ` set (stageMessages ex_abstained_store)"
proof -
  have h: "stage ex_abstained_store = CrossExam"
    "Gemini \<in> set (selectedModels ex_abstained_store)"
    "Gemini \<notin> msg_model ` set (stageMessages ex_abstained_store)"
    by (simp_all add: ex_abstained_store_def setAIStatus_def stageMessages_def ex_defs)
  note t = getNextTurn_first_silent_agent [where P = ex_prompts and respond = ex_refuse
      and now_id = 7 and now_ts = 8 and v = ex_view and a = Gemini and status = Abstained
      and s = ex_abstained_store]
  from t h have n: "getNextTurn ex_prompts ex_abstained_store \<noteq> None" by blast
  then obtain turn where s: "getNextTurn ex_prompts ex_abstained_store = Some turn" by blast
  with t have "tr_model turn \<notin> msg_model ` set (stageMessages ex_abstained_store)" by blast
  with s n h show ?thesis by simp
qed

text \<open>
  Two ticks on the example session, every request being refused. Gemini has used up its
  retries, so the first tick leaves it abstained; the second tick produces a turn for
  Gemini again.
\<close>

theorem abstained_agent_selected_again_counterexample:
  "ai_status (aiStates (store (snd (runTurn ex_prompts ex_refuse 7 8 ex_view))) Gemini) = Abstained \<and>
   producedFor (fst (runTurn ex_prompts ex_refuse 9 10 (snd (runTurn ex_prompts ex_refuse 7 8 ex_view))))
     = Some Gemini"
proof -
  have n: "map_option tr_model (getNextTurn ex_prompts (store ex_view)) = Some Gemini"
    by (simp add: ex_defs engine_defs Let_def)
  then obtain turn where t: "getNextTurn ex_prompts (store ex_view) = Some turn"
    "tr_model turn = Gemini" by auto
  have g: "\<not> isPaused (store ex_view)" "\<not> isComplete (store ex_view)" "\<not> isRunning ex_view"
    "\<not> checkConsensus (store ex_view)" "\<not> fst (shouldAdvanceStage (store ex_view))"
    "\<not> shouldAdvanceRound (store ex_view)" "retryCount ex_view Gemini = 3"
    by (simp_all add: ex_defs engine_defs)
  define v1 where "v1 = snd (runTurn ex_prompts ex_refuse 7 8 ex_view)"
  have v1: "v1 = executeTurn turn ResponseNotOk 7 8 ex_view"
    using g t by (simp add: v1_def runTurn_unfold ex_refuse_def)
  have st: "store v1 = setAIStatus Gemini Abstained (setAIStatus Gemini Streaming (store ex_view))"
    "\<not> isRunning v1"
    using g t(2)
    by (simp_all add: v1 executeTurn_def Let_def finish_def isCredentialError_def RETRY_CEILING_def)
  have a: "ai_status (aiStates (store v1) Gemini) = Abstained"
    by (simp add: st setAIStatus_def)
  have e: "checkConsensus (store v1) = checkConsensus (store ex_view)"
    "shouldAdvanceStage (store v1) = shouldAdvanceStage (store ex_view)"
    "shouldAdvanceRound (store v1) = shouldAdvanceRound (store ex_view)"
    "getNextTurn ex_prompts (store v1) = getNextTurn ex_prompts (store ex_view)"
    by (simp_all only: st engine_setAIStatus)
  have e': "isPaused (store v1) = isPaused (store ex_view)"
    "isComplete (store v1) = isComplete (store ex_view)"
    by (simp_all add: st setAIStatus_def)
  have "producedFor (fst (runTurn ex_prompts ex_refuse 9 10 v1)) = Some Gemini"
    using g t st(2) by (simp add: runTurn_unfold e e' producedFor_def chatRequest_def)
  with a show ?thesis by (simp add: v1_def)
qed

section \<open>Errors the model reports, and the tick after a failure\<close>

lemma runTurn_TurnProduced:
  assumes "fst (runTurn P respond now_id now_ts v) = TurnProduced rq"
  shows "\<exists>turn. getNextTurn P (store v) = Some turn \<and> rq = chatRequest v turn \<and>
      \<not> isPaused (store v) \<and> \<not> isComplete (store v) \<and> \<not> isRunning v \<and>
      \<not> checkConsensus (store v) \<and> \<not> fst (shouldAdvanceStage (store v)) \<and>
      \<not> shouldAdvanceRound (store v) \<and>
      snd (runTurn P respond now_id now_ts v) = executeTurn turn (respond rq) now_id now_ts v"
proof (cases "getNextTurn P (store v)")
  case None
  then show ?thesis using assms by (simp add: runTurn_unfold split: if_splits)
next
  case (Some turn)
  then show ?thesis using assms by (simp add: runTurn_unfold split: if_splits)
qed

lemma ex_store_tick:
  "\<not> isPaused ex_store" "\<not> isComplete ex_store" "\<not> checkConsensus ex_store"
  "\<not> fst (shouldAdvanceStage ex_store)" "\<not> shouldAdvanceRound ex_store"
  "stage ex_store = CrossExam" "roundNo ex_store = 1"
  by (simp_all add: ex_defs engine_defs)

lemma ex_fresh_tick:
  "store ex_fresh_view = ex_store" "\<not> isRunning ex_fresh_view"
  "retryCount ex_fresh_view Gemini = 0"
  by (simp_all add: ex_fresh_view_def ex_defs)

lemma ex_retried_tick:
  "store ex_retried_view = ex_store" "\<not> isRunning ex_retried_view"
  "retryCount ex_retried_view Gemini = 1" "apiError ex_retried_view = None"
  by (simp_all add: ex_retried_view_def ex_defs)

lemma ex_view_tick:
  "store ex_view = ex_store" "\<not> isRunning ex_view" "retryCount ex_view Gemini = 3"
  by (simp_all add: ex_defs)

lemma ex_turn_Gemini:
  "\<exists>turn. getNextTurn ex_prompts ex_store = Some turn \<and> tr_model turn = Gemini \<and>
     chatRequest ex_fresh_view turn = ex_request \<and> chatRequest ex_view turn = ex_request \<and>
     chatRequest ex_retried_view turn = ex_request"
  by (simp add: ex_fresh_view_def ex_retried_view_def ex_request_def ex_defs engine_defs
      chatRequest_def Let_def)


lemma failed_tick_asks_again:
  assumes "fst (runTurn P respond now_id now_ts v) = TurnProduced rq"
    and "attempt (respond rq) = Inl errorMessage"
  shows "fst (runTurn P respond' now_id' now_ts' (snd (runTurn P respond now_id now_ts v)))
           = TurnProduced rq"
proof -
  from runTurn_TurnProduced [OF assms(1)] obtain turn where
    t: "getNextTurn P (store v) = Some turn" "rq = chatRequest v turn"
    and g: "\<not> isPaused (store v)" "\<not> isComplete (store v)" "\<not> checkConsensus (store v)"
      "\<not> fst (shouldAdvanceStage (store v))" "\<not> shouldAdvanceRound (store v)"
    and s: "snd (runTurn P respond now_id now_ts v) = executeTurn turn (respond rq) now_id now_ts v"
    by blast
  define v' where "v' = executeTurn turn (respond rq) now_id now_ts v"
  obtain status where st: "store v' = setAIStatus (tr_model turn) status (store v)"
    and run: "\<not> isRunning v'"
    using assms(2)
    by (cases "isCredentialError errorMessage"; cases "retryCount v (tr_model turn) < RETRY_CEILING")
       (simp_all add: v'_def executeTurn_def Let_def finish_def setAIStatus_def)
  have e: "checkConsensus (store v') = checkConsensus (store v)"
    "shouldAdvanceStage (store v') = shouldAdvanceStage (store v)"
    "shouldAdvanceRound (store v') = shouldAdvanceRound (store v)"
    "getNextTurn P (store v') = getNextTurn P (store v)"
    by (simp_all only: st engine_setAIStatus)
  have f: "isPaused (store v') = isPaused (store v)" "isComplete (store v') = isComplete (store v)"
    "chatRequest v' turn = chatRequest v turn"
    by (simp_all add: st setAIStatus_def chatRequest_def)
  have "fst (runTurn P respond' now_id' now_ts' v') = TurnProduced rq"
    using g run t by (simp add: runTurn_unfold e f)
  then show ?thesis by (simp add: s v'_def)
qed

text \<open>
  Claim C6, as amended. When a tick sends a request for an agent and the attempt ends with
  an exception whose message is classified as a credential failure (it contains \<open>401\<close>,
  \<open>API key\<close> or \<open>Incorrect\<close>), the tick sets the agent's status to abstained at once
  and raises the error dialog for that agent; no retry counter changes (so it stays 0 on a
  first attempt), no utterance is committed and the usage counter is unchanged. The tick
  itself makes no second attempt, but the next tick sends the same request for the same
  agent again, whatever the clock and the endpoint.
\<close>

theorem credential_failure_abstains_and_is_asked_again:
  assumes "fst (runTurn P respond now_id now_ts v) = TurnProduced rq"
    and "attempt (respond rq) = Inl errorMessage" and "isCredentialError errorMessage"
  shows "(let v' = snd (runTurn P respond now_id now_ts v); a = rq_model rq in
      ai_status (aiStates (store v') a) = Abstained \<and>
      apiError v' = Some (a, KeyInvalidText) \<and>
      retryCount v' = retryCount v \<and>
      messages (store v') = messages (store v) \<and>
      ai_tokenUsage (aiStates (store v') a) = ai_tokenUsage (aiStates (store v) a) \<and>
      fst (runTurn P respond' now_id' now_ts' v') = TurnProduced rq)"
proof -
  from runTurn_TurnProduced [OF assms(1)] obtain turn where
    t: "rq = chatRequest v turn"
    and s: "snd (runTurn P respond now_id now_ts v) = executeTurn turn (respond rq) now_id now_ts v"
    by blast
  have a: "rq_model rq = tr_model turn" by (simp add: t chatRequest_def)
  show ?thesis
    using credential_failure_abstains [OF assms(2,3), of turn now_id now_ts v]
      failed_tick_asks_again [OF assms(1,2), of respond' now_id' now_ts']
    by (simp add: Let_def s a)
qed

theorem credential_failure_abstains_and_is_asked_again_witness:
  "fst (runTurn ex_prompts ex_bad_key 7 8 ex_fresh_view) = TurnProduced ex_request \<and>
   attempt (ex_bad_key ex_request) = Inl ''401 Incorrect API key provided'' \<and>
   isCredentialError ''401 Incorrect API key provided'' \<and>
   ai_status (aiStates (store (snd (runTurn ex_prompts ex_bad_key 7 8 ex_fresh_view))) Gemini)
     = Abstained \<and>
   retryCount (snd (runTurn ex_prompts ex_bad_key 7 8 ex_fresh_view)) Gemini = 0 \<and>
   messages (store (snd (runTurn ex_prompts ex_bad_key 7 8 ex_fresh_view))) = messages ex_store \<and>
   fst (runTurn ex_prompts ex_bad_key 9 10 (snd (runTurn ex_prompts ex_bad_key 7 8 ex_fresh_view)))
     = TurnProduced ex_request"
proof -
  from ex_turn_Gemini obtain turn where t: "getNextTurn ex_prompts ex_store = Some turn"
    "chatRequest ex_fresh_view turn = ex_request" by blast
  have p: "fst (runTurn ex_prompts ex_bad_key 7 8 ex_fresh_view) = TurnProduced ex_request"
    using t by (simp add: runTurn_unfold ex_fresh_tick ex_store_tick)
  have a: "attempt (ex_bad_key ex_request) = Inl ''401 Incorrect API key provided''"
    by (simp add: ex_bad_key_def rethrown_def)
  have b: "isCredentialError ''401 Incorrect API key provided''"
    by (simp add: isCredentialError_def)
  have m: "rq_model ex_request = Gemini" by (simp add: ex_request_def)
  note c = credential_failure_abstains_and_is_asked_again [OF p a b, where respond' = ex_bad_key
      and now_id' = 9 and now_ts' = 10]
  show ?thesis
    using p a b c by (simp add: Let_def m ex_fresh_tick)
qed

text \<open>
  Gemini's first attempt in the example session fails with a rejected key: the tick leaves
  it abstained with retry counter 0, and the next tick sends a request for Gemini again.
\<close>

theorem credential_failure_retried_counterexample:
  "retryCount ex_fresh_view Gemini = 0 \<and>
   producedFor (fst (runTurn ex_prompts ex_bad_key 7 8 ex_fresh_view)) = Some Gemini \<and>
   ai_status (aiStates (store (snd (runTurn ex_prompts ex_bad_key 7 8 ex_fresh_view))) Gemini)
     = Abstained \<and>
   producedFor (fst (runTurn ex_prompts ex_bad_key 9 10
      (snd (runTurn ex_prompts ex_bad_key 7 8 ex_fresh_view)))) = Some Gemini"
proof -
  from ex_turn_Gemini obtain turn where t: "getNextTurn ex_prompts ex_store = Some turn"
    "tr_model turn = Gemini" "chatRequest ex_fresh_view turn = ex_request" by blast
  have p: "fst (runTurn ex_prompts ex_bad_key 7 8 ex_fresh_view) = TurnProduced ex_request"
    using t by (simp add: runTurn_unfold ex_fresh_tick ex_store_tick)
  have s: "snd (runTurn ex_prompts ex_bad_key 7 8 ex_fresh_view)
      = executeTurn turn (ex_bad_key ex_request) 7 8 ex_fresh_view"
    using t by (simp add: runTurn_unfold ex_fresh_tick ex_store_tick)
  have a: "attempt (ex_bad_key ex_request) = Inl ''401 Incorrect API key provided''"
    by (simp add: ex_bad_key_def rethrown_def)
  have b: "isCredentialError ''401 Incorrect API key provided''"
    by (simp add: isCredentialError_def)
  have m: "rq_model ex_request = Gemini" by (simp add: ex_request_def)
  have "ai_status (aiStates (store (snd (runTurn ex_prompts ex_bad_key 7 8 ex_fresh_view))) Gemini)
     = Abstained"
    using credential_failure_abstains [OF a b, of turn 7 8 ex_fresh_view] t(2)
    by (simp add: Let_def s)
  moreover have "fst (runTurn ex_prompts ex_bad_key 9 10
      (snd (runTurn ex_prompts ex_bad_key 7 8 ex_fresh_view))) = TurnProduced ex_request"
    by (rule failed_tick_asks_again [OF p a])
  ultimately show ?thesis using p m by (simp add: producedFor_def ex_fresh_tick)
qed

text \<open>
  Claim C5, at an input where the code departs from it. The provider rejects the request
  with a message that mentions JSON, and the chat route reports it in the stream. The
  message is not a credential failure, so this is a transient failure of the turn. The
  reader loop drops the error because of the word JSON in its message; the tick then
  commits an utterance with empty content, sets the status to complete and the retry
  counter to zero, for an agent that has failed once as for one that has used up its
  retries.
\<close>

theorem reported_error_mentioning_JSON_is_committed:
  "fst (runTurn ex_prompts ex_json_error 7 8 ex_retried_view) = TurnProduced ex_request \<and>
   ex_json_error ex_request
     = Stream [Payload [] ''Invalid JSON payload received'', OtherLine, OtherLine] None \<and>
   \<not> isCredentialError ''Invalid JSON payload received'' \<and>
   retryCount ex_retried_view Gemini = 1 \<and>
   retryCount (snd (runTurn ex_prompts ex_json_error 7 8 ex_retried_view)) Gemini = 0 \<and>
   ai_status (aiStates (store (snd (runTurn ex_prompts ex_json_error 7 8 ex_retried_view))) Gemini)
     = Complete \<and>
   messages (store (snd (runTurn ex_prompts ex_json_error 7 8 ex_retried_view)))
     = messages ex_store @
        [\<lparr> msg_id = ''gemini-7'', msg_model = Gemini, msg_content = [],
           msg_stage = CrossExam, msg_round = 1, msg_timestamp = 8, msg_tokenCount = None \<rparr>] \<and>
   apiError (snd (runTurn ex_prompts ex_json_error 7 8 ex_retried_view)) = None \<and>
   retryCount ex_view Gemini = 3 \<and>
   ai_status (aiStates (store (snd (runTurn ex_prompts ex_json_error 7 8 ex_view))) Gemini)
     = Complete \<and>
   retryCount (snd (runTurn ex_prompts ex_json_error 7 8 ex_view)) Gemini = 0"
proof -
  from ex_turn_Gemini obtain turn where t: "getNextTurn ex_prompts ex_store = Some turn"
    "tr_model turn = Gemini" "chatRequest ex_retried_view turn = ex_request"
    "chatRequest ex_view turn = ex_request" by blast
  have r: "runTurn ex_prompts ex_json_error 7 8 ex_retried_view
      = (TurnProduced ex_request, executeTurn turn (ex_json_error ex_request) 7 8 ex_retried_view)"
    "snd (runTurn ex_prompts ex_json_error 7 8 ex_view)
      = executeTurn turn (ex_json_error ex_request) 7 8 ex_view"
    using t by (simp_all add: runTurn_unfold ex_retried_tick ex_view_tick ex_store_tick)
  have a: "attempt (ex_json_error ex_request) = Inr []"
    by (simp add: ex_json_error_def rethrown_def)
  have b: "\<not> isCredentialError ''Invalid JSON payload received''"
    by (simp add: isCredentialError_def)
  have n: "show_nat 7 = ''7''" by code_simp
  show ?thesis
    using a b t(2) n
    by (simp add: r executeTurn_def Let_def finish_def setAIStatus_def addMessage_def
        updateTokenUsage_def tokenEstimate_def ex_json_error_def ex_retried_tick ex_view_tick
        ex_store_tick)
qed

end
